theory Spec2Isabelle
  imports Complex_Main
begin

section \<open>Strings of the host language\<close>

text \<open>
  Source strings are modelled as \<^typ>\<open>string\<close>: one \<^typ>\<open>char\<close> per byte of the
  UTF-8 text, which is how the fixed Russian messages of the analyzer are carried.
  The white-space characters that \<open>String.prototype.trim\<close> strips and the regular
  expression class \<open>\s\<close> matches (tab, line feed, vertical tab, form feed, carriage
  return, space, U+00A0, U+1680, U+2000 to U+200A, U+2028, U+2029, U+202F, U+205F,
  U+3000 and U+FEFF) are listed by their encodings; no encoding is a prefix of
  another one.
\<close>

definition white_space :: "string list" where
  "white_space =
     [[CHR 0x09], [CHR 0x0A], [CHR 0x0B], [CHR 0x0C], [CHR 0x0D], [CHR 0x20],
      [CHR 0xC2, CHR 0xA0], [CHR 0xE1, CHR 0x9A, CHR 0x80],
      [CHR 0xE2, CHR 0x80, CHR 0x80], [CHR 0xE2, CHR 0x80, CHR 0x81],
      [CHR 0xE2, CHR 0x80, CHR 0x82], [CHR 0xE2, CHR 0x80, CHR 0x83],
      [CHR 0xE2, CHR 0x80, CHR 0x84], [CHR 0xE2, CHR 0x80, CHR 0x85],
      [CHR 0xE2, CHR 0x80, CHR 0x86], [CHR 0xE2, CHR 0x80, CHR 0x87],
      [CHR 0xE2, CHR 0x80, CHR 0x88], [CHR 0xE2, CHR 0x80, CHR 0x89],
      [CHR 0xE2, CHR 0x80, CHR 0x8A], [CHR 0xE2, CHR 0x80, CHR 0xA8],
      [CHR 0xE2, CHR 0x80, CHR 0xA9], [CHR 0xE2, CHR 0x80, CHR 0xAF],
      [CHR 0xE2, CHR 0x81, CHR 0x9F], [CHR 0xE3, CHR 0x80, CHR 0x80],
      [CHR 0xEF, CHR 0xBB, CHR 0xBF]]"

text \<open>
  The number of bytes of the white-space character that a string starts with, or
  ends with; 0 when it starts, or ends, with none.
\<close>

definition leading_white_space :: "string \<Rightarrow> nat" where
  "leading_white_space s =
     (case find (\<lambda>w. take (length w) s = w) white_space of
        None \<Rightarrow> 0
      | Some w \<Rightarrow> length w)"

definition trailing_white_space :: "string \<Rightarrow> nat" where
  "trailing_white_space s =
     (case find (\<lambda>w. length w \<le> length s \<and> drop (length s - length w) s = w) white_space of
        None \<Rightarrow> 0
      | Some w \<Rightarrow> length w)"

function trimStart :: "string \<Rightarrow> string" where
  "trimStart s =
     (if leading_white_space s = 0 then s else trimStart (drop (leading_white_space s) s))"
  by pat_completeness auto
termination
proof (relation "measure length")
  show "wf (measure length)" by simp
next
  fix s :: string
  assume n: "leading_white_space s \<noteq> 0"
  then obtain w where w: "find (\<lambda>w. take (length w) s = w) white_space = Some w"
    by (cases "find (\<lambda>w. take (length w) s = w) white_space")
       (simp_all add: leading_white_space_def)
  then have "take (length w) s = w" by (auto simp: find_Some_iff)
  then have "length (take (length w) s) = length w" by simp
  then have "length w \<le> length s" by simp
  moreover have "leading_white_space s = length w" using w by (simp add: leading_white_space_def)
  ultimately show "(drop (leading_white_space s) s, s) \<in> measure length"
    using n by (cases w) auto
qed

function trimEnd :: "string \<Rightarrow> string" where
  "trimEnd s =
     (if trailing_white_space s = 0 then s
      else trimEnd (take (length s - trailing_white_space s) s))"
  by pat_completeness auto
termination
proof (relation "measure length")
  show "wf (measure length)" by simp
next
  fix s :: string
  assume n: "trailing_white_space s \<noteq> 0"
  then obtain w where w:
    "find (\<lambda>w. length w \<le> length s \<and> drop (length s - length w) s = w) white_space = Some w"
    by (cases "find (\<lambda>w. length w \<le> length s \<and> drop (length s - length w) s = w) white_space")
       (simp_all add: trailing_white_space_def)
  then have "length w \<le> length s" by (auto simp: find_Some_iff)
  moreover have "trailing_white_space s = length w"
    using w by (simp add: trailing_white_space_def)
  ultimately show "(take (length s - trailing_white_space s) s, s) \<in> measure length"
    using n by (cases w) auto
qed

declare trimStart.simps [simp del] trimEnd.simps [simp del]

definition trim :: "string \<Rightarrow> string" where
  "trim s = trimEnd (trimStart s)"

definition is_digit :: "char \<Rightarrow> bool" where
  "is_digit c = (c \<in> set ''0123456789'')"

definition is_alpha :: "char \<Rightarrow> bool" where
  "is_alpha c =
     (c \<in> set ''abcdefghijklmnopqrstuvwxyz'' \<or> c \<in> set ''ABCDEFGHIJKLMNOPQRSTUVWXYZ'')"

definition digit_val :: "char \<Rightarrow> int" where
  "digit_val c = of_char c - 48"

definition digits_to_int :: "string \<Rightarrow> int" where
  "digits_to_int ds = foldl (\<lambda>n c. 10 * n + digit_val c) 0 ds"

definition digit_char :: "int \<Rightarrow> char" where
  "digit_char d = ''0123456789'' ! nat d"

text \<open>The decimal digits of a whole number that is not negative.\<close>

function int_to_digits :: "int \<Rightarrow> string" where
  "int_to_digits n =
     (if n < 10 then [digit_char n] else int_to_digits (n div 10) @ [digit_char (n mod 10)])"
  by pat_completeness auto
termination
  by (relation "measure nat") auto

declare int_to_digits.simps [simp del]

definition string_of_int :: "int \<Rightarrow> string" where
  "string_of_int i = (if i < 0 then CHR ''-'' # int_to_digits (- i) else int_to_digits i)"

section \<open>Numbers of the host language\<close>

text \<open>
  A number of the source is an IEEE 754 double: NaN, or a value \<open>Num r\<close> where \<open>r\<close> is
  the rational that a finite double stands for, or \<open>\<plusminus>2^1024\<close>, which stands for
  \<open>\<plusminus>Infinity\<close>: it lies beyond every finite double, so that the order of the
  rationals is the order of the doubles.
\<close>

datatype jsnum = NaN | Num rat

definition infinity :: rat where
  "infinity = 2 ^ 1024"

lemma infinity_numeral [code]:
  "infinity = 179769313486231590772930519078902473361797697894230657273430081157732675805500963132708477322407536021120113879871393357658789768814416622492847430639474124377767893424865485276302219601246094119453082952085005768838150682342462881473913110540827237163350510684586298239947245938479716304835356329624224137216"
  by (simp add: infinity_def)

text \<open>
  The double nearest to a rational, ties going to the even significand: the
  significand has 53 bits, the least exponent of its last bit is \<open>-1074\<close>, and a value
  that rounds to \<open>2^1024\<close> has overflowed to infinity.
\<close>

function bit_length :: "int \<Rightarrow> int" where
  "bit_length n = (if n \<le> 0 then 0 else 1 + bit_length (n div 2))"
  by pat_completeness auto
termination
  by (relation "measure nat") auto

declare bit_length.simps [simp del]

definition floor_log2 :: "rat \<Rightarrow> int" where
  "floor_log2 r =
     (let d = bit_length (fst (quotient_of r)) - bit_length (snd (quotient_of r))
      in if 2 powi d \<le> r then d else d - 1)"

definition round_half_even :: "rat \<Rightarrow> int" where
  "round_half_even t =
     (let f = \<lfloor>t\<rfloor>; d = t - of_int f
      in if d < 1 / 2 then f else if 1 / 2 < d then f + 1 else if even f then f else f + 1)"

definition round_double :: "rat \<Rightarrow> rat" where
  "round_double r =
     (let a = \<bar>r\<bar>
      in if a = 0 then 0
         else if infinity \<le> a then sgn r * infinity
         else (let q = max (floor_log2 a - 52) (- 1074)
               in sgn r * (of_int (round_half_even (a / 2 powi q)) * 2 powi q)))"

text \<open>\<open>x >= y\<close>, \<open>x - y\<close>, \<open>x || y\<close> (zero and NaN are falsy) and \<open>x < 0\<close> on numbers.\<close>

fun js_ge :: "jsnum \<Rightarrow> jsnum \<Rightarrow> bool" where
  "js_ge (Num a) (Num b) = (b \<le> a)"
| "js_ge _ _ = False"

fun js_minus :: "jsnum \<Rightarrow> jsnum \<Rightarrow> jsnum" where
  "js_minus (Num a) (Num b) =
     (if \<bar>a\<bar> = infinity \<or> \<bar>b\<bar> = infinity then
        (if a = b then NaN else if \<bar>a\<bar> = infinity then Num a else Num (- b))
      else Num (round_double (a - b)))"
| "js_minus _ _ = NaN"

definition js_or :: "jsnum \<Rightarrow> jsnum \<Rightarrow> jsnum" where
  "js_or x y = (if x = NaN \<or> x = Num 0 then y else x)"

definition js_negative :: "jsnum \<Rightarrow> bool" where
  "js_negative x = (case x of NaN \<Rightarrow> False | Num r \<Rightarrow> r < 0)"

text \<open>
  \<open>parseFloat\<close> on a string of digits and periods (the only strings the analyzer
  passes to it): the longest prefix of the form \<open>digits\<close>, \<open>digits.digits\<close> or
  \<open>.digits\<close> is read and rounded to a double; when there is no such prefix the
  result is NaN.
\<close>

definition parseFloat :: "string \<Rightarrow> jsnum" where
  "parseFloat s =
     (let ip = takeWhile is_digit s;
          rest = dropWhile is_digit s;
          fp = (case rest of
                  [] \<Rightarrow> []
                | c # r \<Rightarrow> if c = CHR ''.'' then takeWhile is_digit r else [])
      in if ip = [] \<and> fp = [] then NaN
         else Num (round_double
                (of_int (digits_to_int ip) + of_int (digits_to_int fp) / 10 ^ length fp)))"

definition isInteger :: "jsnum \<Rightarrow> bool" where
  "isInteger v =
     (case v of NaN \<Rightarrow> False | Num r \<Rightarrow> \<bar>r\<bar> < infinity \<and> r = of_int \<lfloor>r\<rfloor>)"

text \<open>
  \<open>String(x)\<close> for a whole number \<open>x\<close> (the only numbers the analyzer prints this
  way). The digits printed are the fewest that read back as \<open>x\<close>, and of those the
  closest to \<open>x\<close>; below \<open>2^53\<close> every whole number is a double and these are its own
  digits. The number is printed in full below \<open>10^21\<close> and in exponent notation from
  there on.
\<close>

definition round_trips :: "int \<Rightarrow> int \<Rightarrow> bool" where
  "round_trips v x = (round_double (of_int v) = of_int x)"

text \<open>The two numbers of \<open>k\<close> significant digits around \<open>x\<close>.\<close>

definition digits_below :: "int \<Rightarrow> nat \<Rightarrow> int" where
  "digits_below x k =
     (x div 10 ^ (length (int_to_digits x) - k)) * 10 ^ (length (int_to_digits x) - k)"

definition digits_above :: "int \<Rightarrow> nat \<Rightarrow> int" where
  "digits_above x k = digits_below x k + 10 ^ (length (int_to_digits x) - k)"

definition best_candidate :: "int \<Rightarrow> nat \<Rightarrow> int" where
  "best_candidate x k =
     (if round_trips (digits_below x k) x \<and> round_trips (digits_above x k) x then
        (if x - digits_below x k < digits_above x k - x then digits_below x k
         else if digits_above x k - x < x - digits_below x k then digits_above x k
         else if even (x div 10 ^ (length (int_to_digits x) - k)) then digits_below x k
         else digits_above x k)
      else if round_trips (digits_below x k) x then digits_below x k
      else digits_above x k)"

fun shortest_from :: "int \<Rightarrow> nat list \<Rightarrow> int" where
  "shortest_from x [] = x"
| "shortest_from x (k # ks) =
     (if round_trips (digits_below x k) x \<or> round_trips (digits_above x k) x
      then best_candidate x k
      else shortest_from x ks)"

definition shortest_value :: "int \<Rightarrow> int" where
  "shortest_value x = shortest_from x [1..<18]"

definition exponent_form :: "int \<Rightarrow> string" where
  "exponent_form v =
     (case rev (dropWhile (\<lambda>c. c = CHR ''0'') (rev (int_to_digits v))) of
        [] \<Rightarrow> ''0''
      | d # rest \<Rightarrow>
          (if rest = [] then [d] else d # CHR ''.'' # rest)
          @ ''e+'' @ int_to_digits (int (length (int_to_digits v)) - 1))"

definition string_of_whole :: "int \<Rightarrow> string" where
  "string_of_whole x =
     (if x < 2 ^ 53 then int_to_digits x
      else if shortest_value x < 10 ^ 21 then int_to_digits (shortest_value x)
      else exponent_form (shortest_value x))"

definition number_to_string :: "jsnum \<Rightarrow> string" where
  "number_to_string v =
     (case v of
        NaN \<Rightarrow> ''NaN''
      | Num r \<Rightarrow>
          (if r < 0 then CHR ''-'' # [] else [])
          @ (if infinity \<le> \<bar>r\<bar> then ''Infinity'' else string_of_whole \<lfloor>\<bar>r\<bar>\<rfloor>))"

text \<open>
  \<open>x.toFixed(1)\<close>: below \<open>10^21\<close>, the integer \<open>n\<close> with \<open>n / 10\<close> closest to \<open>x\<close> (the
  larger one on a tie), printed with one digit after the period; from \<open>10^21\<close> on,
  and for an infinite \<open>x\<close>, what \<open>String(x)\<close> prints.
\<close>

definition toFixed1 :: "jsnum \<Rightarrow> string" where
  "toFixed1 v =
     (case v of
        NaN \<Rightarrow> ''NaN''
      | Num r \<Rightarrow>
          (if 10 ^ 21 \<le> \<bar>r\<bar> then number_to_string v
           else (if r < 0 then CHR ''-'' # [] else [])
                @ int_to_digits (\<lfloor>\<bar>r\<bar> * 10 + 1 / 2\<rfloor> div 10) @ ''.''
                @ [digit_char (\<lfloor>\<bar>r\<bar> * 10 + 1 / 2\<rfloor> mod 10)]))"

section \<open>Data model\<close>

datatype BrowserKey = chrome | firefox | safari

datatype FeatureType = property_type | property_value_type | selector_type

datatype ValueKind = identifier_kind | function_kind

record FeatureUsage =
  key :: string
  ftype :: FeatureType
  property :: "string option"
  fvalue :: "string option"
  valueKind :: "ValueKind option"
  label :: string

text \<open>The added-version token of a support statement: \<open>string | boolean | null\<close>.\<close>

datatype version = VNull | VBool bool | VStr string

text \<open>A value of unknown type (the \<open>flags\<close> field), as far as its truthiness goes.\<close>

datatype jsval = JUndefined | JNull | JBool bool | JNumber rat | JString string | JObject

fun truthy :: "jsval \<Rightarrow> bool" where
  "truthy JUndefined = False"
| "truthy JNull = False"
| "truthy (JBool b) = b"
| "truthy (JNumber r) = (r \<noteq> 0)"
| "truthy (JString s) = (s \<noteq> [])"
| "truthy JObject = True"

fun version_truthy :: "version \<Rightarrow> bool" where
  "version_truthy VNull = False"
| "version_truthy (VBool b) = b"
| "version_truthy (VStr s) = (s \<noteq> [])"

fun opt_string_truthy :: "string option \<Rightarrow> bool" where
  "opt_string_truthy None = False"
| "opt_string_truthy (Some s) = (s \<noteq> [])"

record CompatStatement =
  version_added :: version
  version_removed :: "version option"
  flags :: jsval
  prefix :: "string option"
  alternative_name :: "string option"

datatype support_info = Single CompatStatement | Multiple "CompatStatement list"

type_synonym support_map = "BrowserKey \<Rightarrow> support_info option"

text \<open>
  A node of the knowledge base: the optional \<open>__compat\<close> block (its \<open>support\<close> table)
  and the other own properties of the object, in listed order. A property holds
  either a nested object or some value that is not one.
\<close>

datatype CompatData = CompatData (compat: "support_map option") (entries: "(string \<times> jsprop) list")
  and jsprop = PObject CompatData | PNonObject

record BrowserRelease =
  status :: "string option"
  release_date :: "string option"

text \<open>
  The part of the knowledge base that the analyzer reads: \<open>css.properties\<close>,
  \<open>css.selectors.nesting\<close> and \<open>browsers.<id>.releases\<close>.
\<close>

record Bcd =
  properties :: "(string \<times> CompatData) list"
  selectors_nesting :: "CompatData option"
  releases :: "BrowserKey \<Rightarrow> (string \<times> BrowserRelease) list option"

record AnalysisResult =
  features :: "FeatureUsage list"
  minimumVersions :: "BrowserKey \<Rightarrow> string option"
  latestVersions :: "BrowserKey \<Rightarrow> string option"
  unsupported :: "BrowserKey \<Rightarrow> string list option"
  reasons :: "BrowserKey \<Rightarrow> string"

text \<open>
  What the analyzer takes from its environment: the parser of the style-sheet
  library (\<open>None\<close> where it throws), and \<open>String.prototype.toLowerCase\<close> and
  \<open>String.prototype.localeCompare\<close> of the engine, whose results depend on Unicode
  case mapping and on the collation of the default locale.
\<close>

datatype node =
    Declaration string node
  | Identifier string
  | Function string "node list"
  | NestingSelector
  | Container "node list"
  | Other "node list"

record Host =
  parse :: "string \<Rightarrow> node option"
  toLowerCase :: "string \<Rightarrow> string"
  localeCompare :: "string \<Rightarrow> string \<Rightarrow> int"

definition SUPPORTED_BROWSERS :: "BrowserKey list" where
  "SUPPORTED_BROWSERS = [chrome, firefox, safari]"

section \<open>Version utilities\<close>

definition normalizeVersion :: "version \<Rightarrow> jsnum option" where
  "normalizeVersion v =
     (case v of
        VBool True \<Rightarrow> Some (Num 0)
      | VBool False \<Rightarrow> None
      | VNull \<Rightarrow> None
      | VStr s \<Rightarrow>
          (let cleaned = filter (\<lambda>c. is_digit c \<or> c = CHR ''.'') s
           in if cleaned = [] then None else Some (parseFloat cleaned)))"

definition formatVersion :: "jsnum \<Rightarrow> string list option \<Rightarrow> string option" where
  "formatVersion v unsup =
     (if (case unsup of None \<Rightarrow> False | Some l \<Rightarrow> l \<noteq> []) then None
      else if v = Num 0 then Some ''all''
      else Some (if isInteger v then number_to_string v else toFixed1 v))"

section \<open>Support statements\<close>

definition is_preferred :: "CompatStatement \<Rightarrow> bool" where
  "is_preferred entry =
     (\<not> truthy (flags entry) \<and> \<not> opt_string_truthy (prefix entry)
      \<and> \<not> opt_string_truthy (alternative_name entry) \<and> version_truthy (version_added entry))"

fun pickSupportStatement :: "support_info option \<Rightarrow> CompatStatement option" where
  "pickSupportStatement None = None"
| "pickSupportStatement (Some (Single s)) = Some s"
| "pickSupportStatement (Some (Multiple xs)) =
     (case find is_preferred xs of
        Some p \<Rightarrow> Some p
      | None \<Rightarrow>
          (case find (\<lambda>entry. version_added entry \<noteq> VNull) xs of
             Some q \<Rightarrow> Some q
           | None \<Rightarrow> (case xs of [] \<Rightarrow> None | x # _ \<Rightarrow> Some x)))"

section \<open>Compat resolver\<close>

text \<open>
  \<open>toMdnKey\<close> is four global replacements in a row: runs of white space become one
  underscore, every character outside \<open>[a-z0-9\-_%().]\<close> (case-insensitive, which
  adds the letters \<open>A\<close> to \<open>Z\<close> and no other character) becomes an underscore, runs
  of underscores become one, and one underscore is removed at each end. A character
  outside ASCII is several bytes here and gives that many underscores in the
  second step; the third step makes one underscore of them, as of the single one
  that the source gets.
\<close>

lemma trimStart_length: "length (trimStart s) \<le> length s"
proof (induction s rule: trimStart.induct)
  case (1 s)
  show ?case
  proof (cases "leading_white_space s = 0")
    case True
    then show ?thesis by (simp add: trimStart.simps [of s])
  next
    case False
    from 1 [OF False] have "length (trimStart (drop (leading_white_space s) s)) \<le> length s"
      by simp
    with False show ?thesis by (simp add: trimStart.simps [of s])
  qed
qed

lemma trimStart_shorter:
  assumes "leading_white_space s \<noteq> 0" and "s \<noteq> []"
  shows "length (trimStart s) < length s"
proof -
  have "length (trimStart (drop (leading_white_space s) s))
          \<le> length (drop (leading_white_space s) s)"
    by (rule trimStart_length)
  also have "\<dots> < length s" using assms by simp
  finally show ?thesis using assms by (simp add: trimStart.simps [of s])
qed

function replace_white_space :: "string \<Rightarrow> string" where
  "replace_white_space s =
     (if s = [] then []
      else if leading_white_space s = 0 then hd s # replace_white_space (tl s)
      else CHR ''_'' # replace_white_space (trimStart s))"
  by pat_completeness auto
termination
  by (relation "measure length") (auto simp: trimStart_shorter)

declare replace_white_space.simps [simp del]

function collapse_runs :: "(char \<Rightarrow> bool) \<Rightarrow> string \<Rightarrow> string" where
  "collapse_runs P [] = []"
| "collapse_runs P (c # cs) =
     (if P c then CHR ''_'' # collapse_runs P (dropWhile P cs) else c # collapse_runs P cs)"
  by pat_completeness auto
termination
  by (relation "measure (\<lambda>(P, cs). length cs)")
     (auto simp: le_imp_less_Suc length_dropWhile_le)

definition key_char :: "char \<Rightarrow> bool" where
  "key_char c = (is_alpha c \<or> is_digit c \<or> c \<in> set ''-_%().'')"

definition strip_underscores :: "string \<Rightarrow> string" where
  "strip_underscores s =
     (let t = (case s of [] \<Rightarrow> [] | c # cs \<Rightarrow> if c = CHR ''_'' then cs else s)
      in if t \<noteq> [] \<and> last t = CHR ''_'' then butlast t else t)"

definition toMdnKey :: "string \<Rightarrow> string" where
  "toMdnKey v =
     strip_underscores
       (collapse_runs (\<lambda>c. c = CHR ''_'')
          (map (\<lambda>c. if key_char c then c else CHR ''_'')
             (replace_white_space v)))"

text \<open>Adding to an insertion-ordered set of strings.\<close>

definition set_add :: "string list \<Rightarrow> string \<Rightarrow> string list" where
  "set_add xs x = (if x \<in> set xs then xs else xs @ [x])"

definition buildValueCandidates :: "string \<Rightarrow> ValueKind option \<Rightarrow> string list" where
  "buildValueCandidates v kind =
     (let normalized = toMdnKey v;
          list = [normalized]
      in if kind = Some function_kind then set_add list (normalized @ ''()'') else list)"

text \<open>
  The loop over the candidates: the first one that names an object under the property.
  No candidate starts with an underscore, so the \<open>__compat\<close> block itself is never
  looked up and \<^const>\<open>entries\<close> holds the properties that can be.
\<close>

fun first_object :: "CompatData \<Rightarrow> string list \<Rightarrow> CompatData option" where
  "first_object prop [] = None"
| "first_object prop (k # ks) =
     (case map_of (entries prop) k of
        Some (PObject d) \<Rightarrow> Some d
      | _ \<Rightarrow> first_object prop ks)"

definition resolveFeatureCompat :: "Bcd \<Rightarrow> FeatureUsage \<Rightarrow> CompatData option" where
  "resolveFeatureCompat bcd feature =
     (if ftype feature = property_type \<and> opt_string_truthy (property feature) then
        (case property feature of
           None \<Rightarrow> None
         | Some p \<Rightarrow> map_of (properties bcd) p)
      else if ftype feature = property_value_type \<and> opt_string_truthy (property feature)
              \<and> opt_string_truthy (fvalue feature) then
        (case (property feature, fvalue feature) of
           (Some p, Some v) \<Rightarrow>
             (case map_of (properties bcd) p of
                None \<Rightarrow> None
              | Some prop \<Rightarrow> first_object prop (buildValueCandidates v (valueKind feature)))
         | _ \<Rightarrow> None)
      else if ftype feature = selector_type \<and> key feature = ''selector:nesting'' then
        selectors_nesting bcd
      else None)"

section \<open>Feature extractor\<close>

text \<open>
  The syntax tree of the parser (\<^typ>\<open>node\<close>), as far as the extractor looks at it:
  declarations (property name and value node), identifiers and functions (name; a
  function has children), nesting selectors, the nodes that can hold declarations
  (\<^const>\<open>Container\<close>: style sheet, at-rule, rule, block and declaration list) and
  every other kind of node (\<^const>\<open>Other\<close>: at-rule prelude, selector list, value
  and so on), each with its children in walking order.
\<close>

definition addFeature :: "FeatureUsage list \<Rightarrow> FeatureUsage \<Rightarrow> FeatureUsage list" where
  "addFeature fs feature = (if key feature \<in> set (map key fs) then fs else fs @ [feature])"

definition property_feature :: "string \<Rightarrow> FeatureUsage" where
  "property_feature prop =
     \<lparr>key = ''property:'' @ prop, ftype = property_type, property = Some prop,
      fvalue = None, valueKind = None, label = prop\<rparr>"

definition identifier_feature :: "string \<Rightarrow> string \<Rightarrow> FeatureUsage" where
  "identifier_feature prop v =
     \<lparr>key = ''property-value:'' @ prop @ '':'' @ v, ftype = property_value_type,
      property = Some prop, fvalue = Some v, valueKind = Some identifier_kind,
      label = prop @ '': '' @ v\<rparr>"

definition function_feature :: "string \<Rightarrow> string \<Rightarrow> FeatureUsage" where
  "function_feature prop v =
     \<lparr>key = ''property-value:'' @ prop @ '':'' @ v @ ''()'', ftype = property_value_type,
      property = Some prop, fvalue = Some v, valueKind = Some function_kind,
      label = prop @ '': '' @ v @ ''()''\<rparr>"

definition nesting_feature :: FeatureUsage where
  "nesting_feature =
     \<lparr>key = ''selector:nesting'', ftype = selector_type, property = None,
      fvalue = None, valueKind = None, label = ''CSS nesting''\<rparr>"

text \<open>The inner walk over a declaration's value, entering every node.\<close>

fun walk_value :: "Host \<Rightarrow> string \<Rightarrow> node \<Rightarrow> FeatureUsage list \<Rightarrow> FeatureUsage list" where
  "walk_value host prop (Identifier n) fs =
     addFeature fs (identifier_feature prop (toLowerCase host n))"
| "walk_value host prop (Function n cs) fs =
     fold (walk_value host prop) cs
       (addFeature fs (function_feature prop (toLowerCase host n)))"
| "walk_value host prop (Declaration p v) fs = walk_value host prop v fs"
| "walk_value host prop NestingSelector fs = fs"
| "walk_value host prop (Container cs) fs = fold (walk_value host prop) cs fs"
| "walk_value host prop (Other cs) fs = fold (walk_value host prop) cs fs"

text \<open>
  The first walk of the tree, with \<open>visit: 'Declaration'\<close>: the library then walks
  only through the nodes that can hold declarations, so the callback runs on the
  declarations reached through containers, in document order, and the walk goes
  neither below a declaration nor into any other node.
\<close>

fun walk_declarations :: "Host \<Rightarrow> node \<Rightarrow> FeatureUsage list \<Rightarrow> FeatureUsage list" where
  "walk_declarations host (Declaration p v) fs =
     (let prop = toLowerCase host (trim p)
      in if prop = [] then fs
         else walk_value host prop v (addFeature fs (property_feature prop)))"
| "walk_declarations host (Container cs) fs = fold (walk_declarations host) cs fs"
| "walk_declarations host (Identifier n) fs = fs"
| "walk_declarations host (Function n cs) fs = fs"
| "walk_declarations host NestingSelector fs = fs"
| "walk_declarations host (Other cs) fs = fs"

text \<open>The second walk, entering every node and looking for nesting selectors.\<close>

fun walk_nesting :: "node \<Rightarrow> FeatureUsage list \<Rightarrow> FeatureUsage list" where
  "walk_nesting NestingSelector fs = addFeature fs nesting_feature"
| "walk_nesting (Declaration p v) fs = walk_nesting v fs"
| "walk_nesting (Identifier n) fs = fs"
| "walk_nesting (Function n cs) fs = fold walk_nesting cs fs"
| "walk_nesting (Container cs) fs = fold walk_nesting cs fs"
| "walk_nesting (Other cs) fs = fold walk_nesting cs fs"

text \<open>
  The parser returns the tree, or \<open>None\<close> where it throws. The inventory is the list
  of the map's values in insertion order.
\<close>

definition collectFeatures :: "Host \<Rightarrow> string \<Rightarrow> FeatureUsage list" where
  "collectFeatures host css =
     (case parse host css of
        None \<Rightarrow> []
      | Some ast \<Rightarrow> walk_nesting ast (walk_declarations host ast []))"

text \<open>
  The features handed to \<^const>\<open>addFeature\<close>, in the order of the calls: the
  occurrences that the inventory deduplicates.
\<close>

fun value_usages :: "Host \<Rightarrow> string \<Rightarrow> node \<Rightarrow> FeatureUsage list" where
  "value_usages host prop (Identifier n) = [identifier_feature prop (toLowerCase host n)]"
| "value_usages host prop (Function n cs) =
     function_feature prop (toLowerCase host n) # concat (map (value_usages host prop) cs)"
| "value_usages host prop (Declaration p v) = value_usages host prop v"
| "value_usages host prop NestingSelector = []"
| "value_usages host prop (Container cs) = concat (map (value_usages host prop) cs)"
| "value_usages host prop (Other cs) = concat (map (value_usages host prop) cs)"

fun declaration_usages :: "Host \<Rightarrow> node \<Rightarrow> FeatureUsage list" where
  "declaration_usages host (Declaration p v) =
     (let prop = toLowerCase host (trim p)
      in if prop = [] then [] else property_feature prop # value_usages host prop v)"
| "declaration_usages host (Container cs) = concat (map (declaration_usages host) cs)"
| "declaration_usages host (Identifier n) = []"
| "declaration_usages host (Function n cs) = []"
| "declaration_usages host NestingSelector = []"
| "declaration_usages host (Other cs) = []"

fun nesting_usages :: "node \<Rightarrow> FeatureUsage list" where
  "nesting_usages NestingSelector = [nesting_feature]"
| "nesting_usages (Declaration p v) = nesting_usages v"
| "nesting_usages (Identifier n) = []"
| "nesting_usages (Function n cs) = concat (map nesting_usages cs)"
| "nesting_usages (Container cs) = concat (map nesting_usages cs)"
| "nesting_usages (Other cs) = concat (map nesting_usages cs)"

definition usages :: "Host \<Rightarrow> string \<Rightarrow> FeatureUsage list" where
  "usages host css =
     (case parse host css of
        None \<Rightarrow> []
      | Some ast \<Rightarrow> declaration_usages host ast @ nesting_usages ast)"

section \<open>Version aggregator\<close>

record agg_state =
  minimum :: "BrowserKey \<Rightarrow> jsnum"
  unsupported_acc :: "BrowserKey \<Rightarrow> string list option"
  limitingFeature :: "BrowserKey \<Rightarrow> string option"
  limitingVersion :: "BrowserKey \<Rightarrow> jsnum option"

definition initial_state :: agg_state where
  "initial_state =
     \<lparr>minimum = (\<lambda>b. Num 0), unsupported_acc = (\<lambda>b. None),
      limitingFeature = (\<lambda>b. None), limitingVersion = (\<lambda>b. None)\<rparr>"

text \<open>The body of the loop over the browsers, for one feature and its support table.\<close>

definition browser_step :: "FeatureUsage \<Rightarrow> support_map \<Rightarrow> BrowserKey \<Rightarrow> agg_state \<Rightarrow> agg_state" where
  "browser_step feature support browser st =
     (case pickSupportStatement (support browser) of
        None \<Rightarrow> st
      | Some statement \<Rightarrow>
          (case normalizeVersion (version_added statement) of
             None \<Rightarrow>
               st\<lparr>unsupported_acc := (unsupported_acc st)
                    (browser := Some ((case unsupported_acc st browser of
                                         None \<Rightarrow> []
                                       | Some l \<Rightarrow> l) @ [label feature]))\<rparr>
           | Some v \<Rightarrow>
               if js_ge v (minimum st browser) then
                 st\<lparr>minimum := (minimum st)(browser := v),
                    limitingFeature := (limitingFeature st)(browser := Some (label feature)),
                    limitingVersion := (limitingVersion st)(browser := Some v)\<rparr>
               else st))"

text \<open>The body of the loop over the inventory.\<close>

definition feature_step :: "Bcd \<Rightarrow> FeatureUsage \<Rightarrow> agg_state \<Rightarrow> agg_state" where
  "feature_step bcd feature st =
     (case resolveFeatureCompat bcd feature of
        None \<Rightarrow> st
      | Some c \<Rightarrow>
          (case compat c of
             None \<Rightarrow> st
           | Some support \<Rightarrow> fold (browser_step feature support) SUPPORTED_BROWSERS st))"

definition aggregate :: "Bcd \<Rightarrow> FeatureUsage list \<Rightarrow> agg_state" where
  "aggregate bcd featureMap = fold (feature_step bcd) featureMap initial_state"

section \<open>Reason builder\<close>

definition msg_prompt :: string where
  "msg_prompt =
     [CHR 0xD0, CHR 0x94, CHR 0xD0, CHR 0xBE, CHR 0xD0, CHR 0xB1, CHR 0xD0, CHR 0xB0,
      CHR 0xD0, CHR 0xB2, CHR 0xD1, CHR 0x8C, CHR 0xD1, CHR 0x82, CHR 0xD0, CHR 0xB5,
      CHR '' '', CHR ''C'', CHR ''S'', CHR ''S'', CHR ''-'', CHR 0xD0, CHR 0xBA,
      CHR 0xD0, CHR 0xBE, CHR 0xD0, CHR 0xB4, CHR '' '', CHR 0xD0, CHR 0xB4, CHR 0xD0,
      CHR 0xBB, CHR 0xD1, CHR 0x8F, CHR '' '', CHR 0xD0, CHR 0xB0, CHR 0xD0, CHR 0xBD,
      CHR 0xD0, CHR 0xB0, CHR 0xD0, CHR 0xBB, CHR 0xD0, CHR 0xB8, CHR 0xD0, CHR 0xB7,
      CHR 0xD0, CHR 0xB0]"

definition msg_unsupported :: string where
  "msg_unsupported =
     [CHR 0xD0, CHR 0x9D, CHR 0xD0, CHR 0xB5, CHR '' '', CHR 0xD0, CHR 0xBF, CHR 0xD0,
      CHR 0xBE, CHR 0xD0, CHR 0xB4, CHR 0xD0, CHR 0xB4, CHR 0xD0, CHR 0xB5, CHR 0xD1,
      CHR 0x80, CHR 0xD0, CHR 0xB6, CHR 0xD0, CHR 0xB8, CHR 0xD0, CHR 0xB2, CHR 0xD0,
      CHR 0xB0, CHR 0xD0, CHR 0xB5, CHR 0xD1, CHR 0x82, CHR 0xD1, CHR 0x81, CHR 0xD1,
      CHR 0x8F, CHR '':'', CHR '' '']"

definition msg_more :: string where
  "msg_more =
     [CHR '' '', CHR 0xD0, CHR 0xB5, CHR 0xD1, CHR 0x89, CHR 0xD1, CHR 0x91, CHR '')'']"

definition msg_limits :: string where
  "msg_limits =
     [CHR 0xD0, CHR 0x9E, CHR 0xD0, CHR 0xB3, CHR 0xD1, CHR 0x80, CHR 0xD0, CHR 0xB0,
      CHR 0xD0, CHR 0xBD, CHR 0xD0, CHR 0xB8, CHR 0xD1, CHR 0x87, CHR 0xD0, CHR 0xB8,
      CHR 0xD0, CHR 0xB2, CHR 0xD0, CHR 0xB0, CHR 0xD0, CHR 0xB5, CHR 0xD1, CHR 0x82,
      CHR '':'', CHR '' '']"

definition msg_since :: string where
  "msg_since =
     [CHR '' '', CHR ''('', CHR 0xD1, CHR 0x81, CHR '' '', CHR 0xD0, CHR 0xB2, CHR 0xD0,
      CHR 0xB5, CHR 0xD1, CHR 0x80, CHR 0xD1, CHR 0x81, CHR 0xD0, CHR 0xB8, CHR 0xD0,
      CHR 0xB8, CHR '' '']"

definition msg_none :: string where
  "msg_none =
     [CHR 0xD0, CHR 0x9E, CHR 0xD0, CHR 0xB3, CHR 0xD1, CHR 0x80, CHR 0xD0, CHR 0xB0,
      CHR 0xD0, CHR 0xBD, CHR 0xD0, CHR 0xB8, CHR 0xD1, CHR 0x87, CHR 0xD0, CHR 0xB8,
      CHR 0xD0, CHR 0xB2, CHR 0xD0, CHR 0xB0, CHR 0xD1, CHR 0x8E, CHR 0xD1, CHR 0x89,
      CHR 0xD0, CHR 0xB8, CHR 0xD1, CHR 0x85, CHR '' '', CHR 0xD1, CHR 0x84, CHR 0xD0,
      CHR 0xB8, CHR 0xD1, CHR 0x87, CHR '' '', CHR 0xD0, CHR 0xBD, CHR 0xD0, CHR 0xB5,
      CHR '' '', CHR 0xD0, CHR 0xBD, CHR 0xD0, CHR 0xB0, CHR 0xD0, CHR 0xB9, CHR 0xD0,
      CHR 0xB4, CHR 0xD0, CHR 0xB5, CHR 0xD0, CHR 0xBD, CHR 0xD0, CHR 0xBE]"

definition buildReason ::
  "BrowserKey \<Rightarrow> (BrowserKey \<Rightarrow> string list option) \<Rightarrow> (BrowserKey \<Rightarrow> string option)
     \<Rightarrow> (BrowserKey \<Rightarrow> jsnum option) \<Rightarrow> string" where
  "buildReason browser unsup limFeature limVersion =
     (case unsup browser of
        Some (u # us) \<Rightarrow>
          (if length (u # us) = 1 then msg_unsupported @ u
           else msg_unsupported @ u @ '' (+'' @ string_of_int (int (length (u # us)) - 1)
                @ msg_more)
      | _ \<Rightarrow>
          (case (limFeature browser, limVersion browser) of
             (Some feature, Some v) \<Rightarrow>
               (if feature \<noteq> [] then
                  msg_limits @ feature @ msg_since
                  @ (if isInteger v then number_to_string v else toFixed1 v) @ '')''
                else msg_none)
           | _ \<Rightarrow> msg_none))"

section \<open>Latest-release lookup\<close>

definition compareVersions :: "string \<Rightarrow> string \<Rightarrow> jsnum" where
  "compareVersions a b =
     (let aNum = (case normalizeVersion (VStr a) of None \<Rightarrow> Num (- 1) | Some x \<Rightarrow> x);
          bNum = (case normalizeVersion (VStr b) of None \<Rightarrow> Num (- 1) | Some x \<Rightarrow> x)
      in js_minus aNum bNum)"

text \<open>
  \<open>Array.prototype.sort\<close> with a comparator is stable; it is modelled as the stable
  insertion sort, which gives the one result a stable sort can give whenever the
  comparator is consistent, and the result of the engine's sort on two elements.
\<close>

fun insert_by :: "('a \<Rightarrow> 'a \<Rightarrow> jsnum) \<Rightarrow> 'a \<Rightarrow> 'a list \<Rightarrow> 'a list" where
  "insert_by cmp x [] = [x]"
| "insert_by cmp x (y # ys) =
     (if js_negative (cmp x y) then x # y # ys else y # insert_by cmp x ys)"

definition sort_by :: "('a \<Rightarrow> 'a \<Rightarrow> jsnum) \<Rightarrow> 'a list \<Rightarrow> 'a list" where
  "sort_by cmp xs = foldl (\<lambda>acc x. insert_by cmp x acc) [] xs"

definition release_entry :: "string \<times> BrowserRelease \<Rightarrow> string \<times> string" where
  "release_entry e =
     (fst e, (case release_date (snd e) of None \<Rightarrow> [] | Some d \<Rightarrow> d))"

definition stable_cmp :: "Host \<Rightarrow> string \<times> string \<Rightarrow> string \<times> string \<Rightarrow> jsnum" where
  "stable_cmp host a b =
     js_or (compareVersions (fst a) (fst b))
       (Num (of_int (localeCompare host (snd a) (snd b))))"

definition all_cmp :: "Host \<Rightarrow> string \<times> string \<Rightarrow> string \<times> string \<Rightarrow> jsnum" where
  "all_cmp host a b =
     js_or (Num (of_int (localeCompare host (snd a) (snd b))))
       (compareVersions (fst a) (fst b))"

definition last_version :: "(string \<times> string) list \<Rightarrow> string option" where
  "last_version xs = (case xs of [] \<Rightarrow> None | _ # _ \<Rightarrow> Some (fst (last xs)))"

definition getLatestVersionFromReleases ::
  "Host \<Rightarrow> (string \<times> BrowserRelease) list option \<Rightarrow> string option" where
  "getLatestVersionFromReleases host rel =
     (case rel of
        None \<Rightarrow> None
      | Some rs \<Rightarrow>
          (let stable = map release_entry (filter (\<lambda>e. status (snd e) = Some ''current'') rs)
           in if stable \<noteq> [] then last_version (sort_by (stable_cmp host) stable)
              else last_version (sort_by (all_cmp host) (map release_entry rs))))"

definition getLatestVersions :: "Host \<Rightarrow> Bcd \<Rightarrow> BrowserKey \<Rightarrow> string option" where
  "getLatestVersions host bcd browser =
     getLatestVersionFromReleases host (releases bcd browser)"

section \<open>The analysis\<close>

definition analyzeCssSupport :: "Host \<Rightarrow> Bcd \<Rightarrow> string \<Rightarrow> AnalysisResult" where
  "analyzeCssSupport host bcd css =
     (if trim css = [] then
        \<lparr>features = [], minimumVersions = (\<lambda>b. None),
         latestVersions = getLatestVersions host bcd,
         unsupported = (\<lambda>b. None), reasons = (\<lambda>b. msg_prompt)\<rparr>
      else
        (let featureMap = collectFeatures host css;
             st = aggregate bcd featureMap
         in \<lparr>features = featureMap,
             minimumVersions = (\<lambda>b. formatVersion (minimum st b) (unsupported_acc st b)),
             latestVersions = getLatestVersions host bcd,
             unsupported = unsupported_acc st,
             reasons = (\<lambda>b. buildReason b (unsupported_acc st) (limitingFeature st)
                                (limitingVersion st))\<rparr>))"

section \<open>Concrete inputs\<close>

text \<open>A statement without qualifiers.\<close>

definition plain_statement :: "version \<Rightarrow> CompatStatement" where
  "plain_statement v =
     \<lparr>version_added = v, version_removed = None, flags = JUndefined, prefix = None,
      alternative_name = None\<rparr>"

definition all_browsers :: "version \<Rightarrow> support_map" where
  "all_browsers v b = Some (Single (plain_statement v))"

text \<open>
  A knowledge base with a universally supported property, properties added in
  versions 80 and 90, one that a browser never supports, and one with a preview
  version and qualified statements; and a release table per browser.
\<close>

definition ex_zoom_support :: support_map where
  "ex_zoom_support b =
     (case b of
        chrome \<Rightarrow> Some (Single (plain_statement (VStr ''120'')))
      | firefox \<Rightarrow> Some (Single (plain_statement (VBool False)))
      | safari \<Rightarrow> Some (Single (plain_statement (VStr ''15.4''))))"

definition ex_appearance_support :: support_map where
  "ex_appearance_support b =
     (case b of
        chrome \<Rightarrow> Some (Single (plain_statement (VStr ''preview'')))
      | firefox \<Rightarrow> Some (Multiple [plain_statement (VStr ''80'')])
      | safari \<Rightarrow> None)"

definition ex_chrome_releases :: "(string \<times> BrowserRelease) list" where
  "ex_chrome_releases =
     [(''119'', \<lparr>status = Some ''retired'', release_date = Some ''2023-10-31''\<rparr>),
      (''120'', \<lparr>status = Some ''current'', release_date = Some ''2023-12-05''\<rparr>),
      (''121'', \<lparr>status = Some ''beta'', release_date = Some ''2024-01-23''\<rparr>)]"

definition ex_firefox_releases :: "(string \<times> BrowserRelease) list" where
  "ex_firefox_releases =
     [(''3'', \<lparr>status = Some ''retired'', release_date = Some ''2008-06-17''\<rparr>),
      (''3.6'', \<lparr>status = Some ''retired'', release_date = Some ''2009-06-30''\<rparr>),
      (''3.5'', \<lparr>status = Some ''retired'', release_date = Some ''2009-06-30''\<rparr>)]"

definition ex_releases :: "BrowserKey \<Rightarrow> (string \<times> BrowserRelease) list option" where
  "ex_releases b =
     (case b of
        chrome \<Rightarrow> Some ex_chrome_releases
      | firefox \<Rightarrow> Some ex_firefox_releases
      | safari \<Rightarrow> Some [])"

definition ex_bcd :: Bcd where
  "ex_bcd =
     \<lparr>properties =
        [(''width'', CompatData (Some (all_browsers (VBool True))) []),
         (''gap'', CompatData (Some (all_browsers (VStr ''80''))) []),
         (''inset'', CompatData (Some (all_browsers (VStr ''90''))) []),
         (''order'', CompatData (Some (all_browsers (VStr ''90''))) []),
         (''zoom'', CompatData (Some ex_zoom_support) []),
         (''appearance'', CompatData (Some ex_appearance_support) [])],
      selectors_nesting = None,
      releases = ex_releases\<rparr>"

text \<open>
  The selection policy in the words of the specification: the preferred statement has
  no flags, no prefix, no alternative name, and an added-version that is neither null
  nor false.
\<close>

definition plain_supported :: "CompatStatement \<Rightarrow> bool" where
  "plain_supported e =
     (\<not> truthy (flags e) \<and> \<not> opt_string_truthy (prefix e)
      \<and> \<not> opt_string_truthy (alternative_name e)
      \<and> version_added e \<noteq> VNull \<and> version_added e \<noteq> VBool False)"

definition pickSupportStatement_spec :: "CompatStatement list \<Rightarrow> CompatStatement option" where
  "pickSupportStatement_spec xs =
     (case find plain_supported xs of
        Some p \<Rightarrow> Some p
      | None \<Rightarrow>
          (case find (\<lambda>e. version_added e \<noteq> VNull) xs of
             Some q \<Rightarrow> Some q
           | None \<Rightarrow> (case xs of [] \<Rightarrow> None | x # _ \<Rightarrow> Some x)))"

definition ex_statements :: "CompatStatement list" where
  "ex_statements = [plain_statement (VStr ''''), plain_statement (VStr ''5'')]"

text \<open>
  The preference test of the code: every qualifier is falsy (absent or empty) and the
  added-version is truthy, which excludes the empty string as well.
\<close>

definition unqualified :: "CompatStatement \<Rightarrow> bool" where
  "unqualified e =
     (\<not> truthy (flags e) \<and> prefix e \<in> {None, Some []} \<and> alternative_name e \<in> {None, Some []}
      \<and> version_added e \<notin> {VNull, VBool False, VStr []})"

definition ex_flagged :: CompatStatement where
  "ex_flagged = (plain_statement (VStr ''49''))\<lparr>flags := JObject\<rparr>"

definition ex_prefixed :: CompatStatement where
  "ex_prefixed = (plain_statement (VStr ''21''))\<lparr>prefix := Some ''-webkit-''\<rparr>"

definition ex_three :: "CompatStatement list" where
  "ex_three = [ex_flagged, plain_statement (VStr ''57''), ex_prefixed]"

definition ex_two :: "CompatStatement list" where
  "ex_two = [ex_flagged, ex_prefixed]"

text \<open>
  The candidate order in the words of the specification (function-suffixed form
  first), and a property table that has both forms of one value.
\<close>

definition buildValueCandidates_spec :: "string \<Rightarrow> ValueKind option \<Rightarrow> string list" where
  "buildValueCandidates_spec v kind =
     (let normalized = toMdnKey v
      in if kind = Some function_kind then [normalized @ ''()'', normalized] else [normalized])"

definition ex_plain_entry :: CompatData where
  "ex_plain_entry = CompatData (Some (all_browsers (VStr ''26''))) []"

definition ex_function_entry :: CompatData where
  "ex_function_entry = CompatData (Some (all_browsers (VStr ''19''))) []"

definition ex_width :: CompatData where
  "ex_width =
     CompatData (Some (all_browsers (VStr ''1'')))
       [(''calc'', PObject ex_plain_entry), (''calc()'', PObject ex_function_entry),
        (''max-content'', PNonObject), (''fit-content()'', PObject ex_function_entry)]"

definition ex_value_bcd :: Bcd where
  "ex_value_bcd =
     \<lparr>properties = [(''width'', ex_width)], selectors_nesting = None, releases = (\<lambda>b. None)\<rparr>"

text \<open>Adding a sequence of usages to an inventory, one call after the other.\<close>

definition add_all :: "FeatureUsage list \<Rightarrow> FeatureUsage list \<Rightarrow> FeatureUsage list" where
  "add_all fs us = fold (\<lambda>u acc. addFeature acc u) us fs"

text \<open>
  A parser defined on a few style sheets: a rule that repeats a declaration and nests
  two rules, and rules of one or two declarations with numeric values.
\<close>

definition ex_css_nested :: string where
  "ex_css_nested = ''a{color:red;COLOR:Red;& b{width:calc(1px)}& c{}}''"

definition ex_tree_nested :: node where
  "ex_tree_nested =
     Container [Container [Other [Other [Other []]],
       Container [Declaration ''color'' (Other [Identifier ''red'']),
              Declaration ''COLOR'' (Other [Identifier ''Red'']),
              Container [Other [Other [NestingSelector, Other [], Other []]],
                     Container [Declaration ''width'' (Other [Function ''calc'' [Other []]])]],
              Container [Other [Other [NestingSelector, Other [], Other []]], Container []]]]]"

definition ex_declaration :: "string \<Rightarrow> node" where
  "ex_declaration p = Declaration p (Other [Other []])"

definition ex_rule :: "node list \<Rightarrow> node" where
  "ex_rule declarations =
     Container [Container [Other [Other [Other []]], Container declarations]]"

definition ex_parse :: "string \<Rightarrow> node option" where
  "ex_parse css =
     (if css = ex_css_nested then Some ex_tree_nested
      else if css = ''a{width:0}'' then Some (ex_rule [ex_declaration ''width''])
      else if css = ''a{gap:1px;inset:0}'' then
        Some (ex_rule [ex_declaration ''gap'', ex_declaration ''inset''])
      else if css = ''a{inset:0;order:1}'' then
        Some (ex_rule [ex_declaration ''inset'', ex_declaration ''order''])
      else if css = ''a{zoom:1}'' then Some (ex_rule [ex_declaration ''zoom''])
      else if css = ''a{appearance:0}'' then Some (ex_rule [ex_declaration ''appearance''])
      else None)"

text \<open>
  A host with this parser, with the lower-casing of the letters \<open>A\<close> to \<open>Z\<close> (which is
  what \<open>toLowerCase\<close> does on ASCII text) and with the comparison of strings byte by
  byte (which is how \<open>localeCompare\<close> orders ISO dates); and the same host with a
  parser that fails on every input.
\<close>

definition lower_char :: "char \<Rightarrow> char" where
  "lower_char c =
     (case map_of (zip ''ABCDEFGHIJKLMNOPQRSTUVWXYZ'' ''abcdefghijklmnopqrstuvwxyz'') c of
        Some d \<Rightarrow> d
      | None \<Rightarrow> c)"

fun compare_bytes :: "string \<Rightarrow> string \<Rightarrow> int" where
  "compare_bytes [] [] = 0"
| "compare_bytes [] (b # bs) = - 1"
| "compare_bytes (a # as) [] = 1"
| "compare_bytes (a # as) (b # bs) =
     (if (of_char a :: nat) < of_char b then - 1
      else if (of_char b :: nat) < of_char a then 1
      else compare_bytes as bs)"

definition ex_host :: Host where
  "ex_host = \<lparr>parse = ex_parse, toLowerCase = map lower_char, localeCompare = compare_bytes\<rparr>"

definition ex_host_fail :: Host where
  "ex_host_fail = ex_host\<lparr>parse := (\<lambda>css. None)\<rparr>"

text \<open>
  A knowledge base whose one property was added, as far as the table says, in a
  version of 309 digits, resp. of 22 digits.
\<close>

definition ex_huge_version :: string where
  "ex_huge_version = replicate 309 (CHR ''9'')"

definition ex_huge_bcd :: Bcd where
  "ex_huge_bcd =
     \<lparr>properties =
        [(''zoom'', CompatData (Some (all_browsers (VStr ex_huge_version))) []),
         (''width'', CompatData (Some (all_browsers (VStr ''1000000000000000000000''))) [])],
      selectors_nesting = None,
      releases = (\<lambda>b. None)\<rparr>"

text \<open>
  What the aggregator learns from one feature for one browser: nothing (no entry, no
  support table, no statement), that the feature is never supported, or the version
  that added it.
\<close>

datatype verdict = NoInformation | NeverSupported | Since jsnum

definition feature_verdict :: "Bcd \<Rightarrow> BrowserKey \<Rightarrow> FeatureUsage \<Rightarrow> verdict" where
  "feature_verdict bcd browser feature =
     (case resolveFeatureCompat bcd feature of
        None \<Rightarrow> NoInformation
      | Some c \<Rightarrow>
          (case compat c of
             None \<Rightarrow> NoInformation
           | Some support \<Rightarrow>
               (case pickSupportStatement (support browser) of
                  None \<Rightarrow> NoInformation
                | Some statement \<Rightarrow>
                    (case normalizeVersion (version_added statement) of
                       None \<Rightarrow> NeverSupported
                     | Some v \<Rightarrow> Since v))))"

text \<open>
  The four per-browser variables of the aggregator, and the effect of one feature on
  them.
\<close>

type_synonym slot = "jsnum \<times> string list option \<times> string option \<times> jsnum option"

definition slot_of :: "agg_state \<Rightarrow> BrowserKey \<Rightarrow> slot" where
  "slot_of st b = (minimum st b, unsupported_acc st b, limitingFeature st b, limitingVersion st b)"

fun slot_step :: "string \<Rightarrow> verdict \<Rightarrow> slot \<Rightarrow> slot" where
  "slot_step l NoInformation s = s"
| "slot_step l NeverSupported (m, u, f, v) =
     (m, Some ((case u of None \<Rightarrow> [] | Some x \<Rightarrow> x) @ [l]), f, v)"
| "slot_step l (Since x) (m, u, f, v) =
     (if js_ge x m then (x, u, Some l, Some x) else (m, u, f, v))"

text \<open>
  The features with a numeric added-version for a browser, in processing order, each
  with its label and version.
\<close>

definition supported_versions :: "Bcd \<Rightarrow> BrowserKey \<Rightarrow> FeatureUsage list \<Rightarrow> (string \<times> rat) list" where
  "supported_versions bcd b fs =
     List.map_filter
       (\<lambda>f. case feature_verdict bcd b f of
               Since (Num r) \<Rightarrow> Some (label f, r)
             | _ \<Rightarrow> None) fs"

text \<open>The running minimum and limiting feature over such a list.\<close>

fun lim_step :: "string \<times> rat \<Rightarrow> rat \<times> string option \<times> jsnum option \<Rightarrow> rat \<times> string option \<times> jsnum option" where
  "lim_step (l, r) (m, f, v) = (if m \<le> r then (r, Some l, Some (Num r)) else (m, f, v))"

definition top_version :: "rat \<Rightarrow> (string \<times> rat) list \<Rightarrow> rat" where
  "top_version m svs = Max (insert m (snd ` set svs))"

text \<open>The labels of the features that a browser never supports, in processing order.\<close>

definition unsupported_labels :: "Bcd \<Rightarrow> BrowserKey \<Rightarrow> FeatureUsage list \<Rightarrow> string list" where
  "unsupported_labels bcd b fs =
     map label (filter (\<lambda>f. feature_verdict bcd b f = NeverSupported) fs)"

text \<open>
  The number a release identifier is compared by (\<open>-1\<close> when it has no digit and no
  period), the identifiers whose number is not NaN, the date of a release (empty
  when absent), and the two orders the lookup sorts by: version then date, and date
  then version, dates being compared by the host's \<open>localeCompare\<close>.
\<close>

definition release_number :: "string \<Rightarrow> rat" where
  "release_number k = (case normalizeVersion (VStr k) of Some (Num r) \<Rightarrow> r | _ \<Rightarrow> - 1)"

definition numeric_key :: "string \<Rightarrow> bool" where
  "numeric_key k = (normalizeVersion (VStr k) \<noteq> Some NaN)"

definition date_of :: "BrowserRelease \<Rightarrow> string" where
  "date_of r = (case release_date r of None \<Rightarrow> [] | Some d \<Rightarrow> d)"

definition stable_le :: "Host \<Rightarrow> string \<times> string \<Rightarrow> string \<times> string \<Rightarrow> bool" where
  "stable_le host a b =
     (release_number (fst a) < release_number (fst b)
      \<or> (release_number (fst a) = release_number (fst b)
          \<and> localeCompare host (snd a) (snd b) \<le> 0))"

definition all_le :: "Host \<Rightarrow> string \<times> string \<Rightarrow> string \<times> string \<Rightarrow> bool" where
  "all_le host a b =
     (localeCompare host (snd a) (snd b) < 0
      \<or> (localeCompare host (snd a) (snd b) = 0
          \<and> release_number (fst a) \<le> release_number (fst b)))"

text \<open>
  A comparison of strings is an order when swapping the arguments swaps the sign
  of the result, and \<open>a\<close> not after \<open>b\<close>, \<open>b\<close> not after \<open>c\<close> gives \<open>a\<close> not after \<open>c\<close>.
\<close>

definition collation_order :: "(string \<Rightarrow> string \<Rightarrow> int) \<Rightarrow> bool" where
  "collation_order cmp =
     ((\<forall>a b. (cmp a b < 0) = (0 < cmp b a))
      \<and> (\<forall>a b c. cmp a b \<le> 0 \<and> cmp b c \<le> 0 \<longrightarrow> cmp a c \<le> 0))"

text \<open>
  A release table with two current releases, one of them named by a period alone.
\<close>

definition ex_dotted_releases :: "(string \<times> BrowserRelease) list" where
  "ex_dotted_releases =
     [(''5'', \<lparr>status = Some ''current'', release_date = Some ''2019-01-01''\<rparr>),
      (''.'', \<lparr>status = Some ''current'', release_date = Some ''2020-01-01''\<rparr>)]"

definition is_current :: "string \<times> BrowserRelease \<Rightarrow> bool" where
  "is_current e = (status (snd e) = Some ''current'')"

section \<open>White space and the short-circuit on empty input\<close>

lemma leading_white_space_Nil: "leading_white_space [] = 0"
  by (simp add: leading_white_space_def white_space_def)

lemma trailing_white_space_Nil: "trailing_white_space [] = 0"
  by (simp add: trailing_white_space_def white_space_def)

lemma leading_white_space_all:
  "list_all (\<lambda>w. leading_white_space (w @ s) = length w) white_space"
  unfolding white_space_def list.pred_inject
  by (intro conjI TrueI; simp add: leading_white_space_def white_space_def)

lemma leading_white_space_append:
  assumes "w \<in> set white_space"
  shows "leading_white_space (w @ s) = length w"
  using leading_white_space_all [of s] assms unfolding list_all_iff by blast

lemma white_space_nonempty: "w \<in> set white_space \<Longrightarrow> w \<noteq> []"
  by (auto simp: white_space_def)

lemma trimStart_white_space:
  "list_all (\<lambda>w. w \<in> set white_space) ws \<Longrightarrow> trimStart (concat ws) = []"
proof (induction ws)
  case Nil
  show ?case by (simp add: trimStart.simps [of "[]"] leading_white_space_Nil)
next
  case (Cons w ws)
  then have w: "w \<in> set white_space" and r: "trimStart (concat ws) = []" by simp_all
  have l: "leading_white_space (w @ concat ws) = length w"
    using w by (rule leading_white_space_append)
  have "length w \<noteq> 0" using white_space_nonempty [OF w] by simp
  with l r show ?case by (simp add: trimStart.simps [of "w @ concat ws"])
qed

lemma trim_white_space:
  "list_all (\<lambda>w. w \<in> set white_space) ws \<Longrightarrow> trim (concat ws) = []"
  by (simp add: trim_def trimStart_white_space trimEnd.simps [of "[]"] trailing_white_space_Nil)

text \<open>
  C8. On an input that is empty or consists of white space only (a sequence of
  white-space characters of the language, the ones outside ASCII included), the
  analysis returns an empty feature list, no minimum version for any of the three
  browsers, an empty unsupported map, and the neutral prompt as the reason of every
  browser.
\<close>

theorem empty_input_result:
  assumes "list_all (\<lambda>w. w \<in> set white_space) ws"
  shows "features (analyzeCssSupport host bcd (concat ws)) = []
       \<and> (\<forall>b. minimumVersions (analyzeCssSupport host bcd (concat ws)) b = None)
       \<and> (\<forall>b. unsupported (analyzeCssSupport host bcd (concat ws)) b = None)
       \<and> (\<forall>b. reasons (analyzeCssSupport host bcd (concat ws)) b = msg_prompt)"
  using trim_white_space [OF assms] by (simp add: analyzeCssSupport_def)

theorem empty_input_result_witness:
  "list_all (\<lambda>w. w \<in> set white_space)
     [[CHR 0x20], [CHR 0xC2, CHR 0xA0], [CHR 0x0A], [CHR 0xE2, CHR 0x80, CHR 0xA8],
      [CHR 0xEF, CHR 0xBB, CHR 0xBF], [CHR 0x09]]
   \<and> features (analyzeCssSupport ex_host ex_bcd
        [CHR 0x20, CHR 0xC2, CHR 0xA0, CHR 0x0A, CHR 0xE2, CHR 0x80, CHR 0xA8,
         CHR 0xEF, CHR 0xBB, CHR 0xBF, CHR 0x09]) = []
   \<and> minimumVersions (analyzeCssSupport ex_host ex_bcd
        [CHR 0x20, CHR 0xC2, CHR 0xA0, CHR 0x0A, CHR 0xE2, CHR 0x80, CHR 0xA8,
         CHR 0xEF, CHR 0xBB, CHR 0xBF, CHR 0x09]) safari = None
   \<and> unsupported (analyzeCssSupport ex_host ex_bcd
        [CHR 0x20, CHR 0xC2, CHR 0xA0, CHR 0x0A, CHR 0xE2, CHR 0x80, CHR 0xA8,
         CHR 0xEF, CHR 0xBB, CHR 0xBF, CHR 0x09]) safari = None
   \<and> reasons (analyzeCssSupport ex_host ex_bcd
        [CHR 0x20, CHR 0xC2, CHR 0xA0, CHR 0x0A, CHR 0xE2, CHR 0x80, CHR 0xA8,
         CHR 0xEF, CHR 0xBB, CHR 0xBF, CHR 0x09]) safari = msg_prompt
   \<and> features (analyzeCssSupport ex_host ex_bcd []) = []
   \<and> reasons (analyzeCssSupport ex_host ex_bcd []) chrome = msg_prompt"
proof -
  have h: "list_all (\<lambda>w. w \<in> set white_space)
     [[CHR 0x20], [CHR 0xC2, CHR 0xA0], [CHR 0x0A], [CHR 0xE2, CHR 0x80, CHR 0xA8],
      [CHR 0xEF, CHR 0xBB, CHR 0xBF], [CHR 0x09]]"
    by (simp add: white_space_def)
  have n: "list_all (\<lambda>w. w \<in> set white_space) []" by simp
  show ?thesis
    using h empty_input_result [OF h, of ex_host ex_bcd] empty_input_result [OF n, of ex_host ex_bcd]
    by simp
qed

section \<open>Parse failures\<close>

lemma aggregate_Nil: "aggregate bcd [] = initial_state"
  by (simp add: aggregate_def)

text \<open>
  C7. Where the parser fails to produce a syntax tree, the extractor returns the empty
  inventory instead of passing the failure on: the analysis has no features, nothing
  unsupported, and reports that no limiting feature was found (or the prompt, when
  the input is blank).
\<close>

theorem parse_failure_degrades:
  assumes "parse host css = None"
  shows "collectFeatures host css = []
       \<and> features (analyzeCssSupport host bcd css) = []
       \<and> (\<forall>b. unsupported (analyzeCssSupport host bcd css) b = None)
       \<and> (\<forall>b. minimumVersions (analyzeCssSupport host bcd css) b
                = (if trim css = [] then None else Some ''all''))
       \<and> (\<forall>b. reasons (analyzeCssSupport host bcd css) b
                = (if trim css = [] then msg_prompt else msg_none))"
proof -
  have c: "collectFeatures host css = []" using assms by (simp add: collectFeatures_def)
  show ?thesis
    by (simp add: c analyzeCssSupport_def aggregate_Nil initial_state_def Let_def
        formatVersion_def buildReason_def)
qed

lemma trim_examples:
  "trim ''a{'' = ''a{''"
  "trim ''a{width:0}'' = ''a{width:0}''"
  "trim ''a{gap:1px;inset:0}'' = ''a{gap:1px;inset:0}''"
  "trim ''a{inset:0;order:1}'' = ''a{inset:0;order:1}''"
  "trim ''a{zoom:1}'' = ''a{zoom:1}''"
  "trim ''a{appearance:0}'' = ''a{appearance:0}''"
  "trim ex_css_nested = ex_css_nested"
  "trim ''width'' = ''width''"
  "trim ''gap'' = ''gap''"
  "trim ''inset'' = ''inset''"
  "trim ''order'' = ''order''"
  "trim ''zoom'' = ''zoom''"
  "trim ''appearance'' = ''appearance''"
  "trim ''color'' = ''color''"
  "trim ''COLOR'' = ''COLOR''"
  by code_simp+

theorem parse_failure_degrades_witness:
  "parse ex_host_fail ''a{'' = None
   \<and> collectFeatures ex_host_fail ''a{'' = []
   \<and> features (analyzeCssSupport ex_host_fail ex_bcd ''a{'') = []
   \<and> unsupported (analyzeCssSupport ex_host_fail ex_bcd ''a{'') chrome = None
   \<and> minimumVersions (analyzeCssSupport ex_host_fail ex_bcd ''a{'') chrome = Some ''all''
   \<and> reasons (analyzeCssSupport ex_host_fail ex_bcd ''a{'') chrome = msg_none"
proof -
  have h: "parse ex_host_fail ''a{'' = None" by (simp add: ex_host_fail_def)
  have t: "trim ''a{'' \<noteq> []" by (simp add: trim_examples)
  show ?thesis
    using h t parse_failure_degrades [where host = ex_host_fail and css = "''a{''" and bcd = ex_bcd]
    by simp
qed

section \<open>Choosing the support statement\<close>

lemma is_preferred_unqualified: "is_preferred e = unqualified e"
proof -
  have a: "\<And>x. (\<not> opt_string_truthy x) = (x \<in> {None, Some []})"
    by (case_tac x) auto
  have b: "\<And>v. version_truthy v = (v \<notin> {VNull, VBool False, VStr []})"
    by (case_tac v) auto
  show ?thesis by (simp only: is_preferred_def unqualified_def a b)
qed

lemma find_decompose:
  "find P xs = Some x \<Longrightarrow> \<exists>ys zs. xs = ys @ x # zs \<and> P x \<and> (\<forall>y\<in>set ys. \<not> P y)"
proof (induction xs)
  case Nil
  then show ?case by simp
next
  case (Cons a xs)
  show ?case
  proof (cases "P a")
    case True
    with Cons.prems have "x = a" by simp
    with True have "a # xs = [] @ x # xs \<and> P x \<and> (\<forall>y\<in>set []. \<not> P y)" by simp
    then show ?thesis by blast
  next
    case False
    with Cons.prems have "find P xs = Some x" by simp
    from Cons.IH [OF this] obtain ys zs
      where "xs = ys @ x # zs" "P x" "\<forall>y\<in>set ys. \<not> P y" by blast
    with False have "a # xs = (a # ys) @ x # zs \<and> P x \<and> (\<forall>y\<in>set (a # ys). \<not> P y)"
      by simp
    then show ?thesis by blast
  qed
qed

lemma find_exists: "\<exists>e\<in>set xs. P e \<Longrightarrow> \<exists>x. find P xs = Some x"
  by (cases "find P xs") (auto simp: find_None_iff)

lemma find_none: "\<not> (\<exists>e\<in>set xs. P e) \<Longrightarrow> find P xs = None"
  by (simp add: find_None_iff)

text \<open>
  C3, as stated, fails: a statement whose added-version is the empty string is neither
  null nor false, yet the code passes it over when looking for the preferred statement.
\<close>

theorem pickSupportStatement_empty_version_counterexample:
  "pickSupportStatement (Some (Multiple ex_statements)) = Some (plain_statement (VStr ''5''))
   \<and> pickSupportStatement_spec ex_statements = Some (plain_statement (VStr ''''))
   \<and> pickSupportStatement (Some (Multiple ex_statements)) \<noteq> pickSupportStatement_spec ex_statements"
  by (simp add: ex_statements_def plain_statement_def pickSupportStatement_spec_def
      plain_supported_def is_preferred_def)

text \<open>
  C3, amended. For a list of support statements, the code returns the first statement
  whose flags, prefix and alternative name are all falsy and whose added-version is
  truthy (not null, not false, not the empty string), if there is one; otherwise the
  first statement whose added-version is not null; otherwise the first statement of
  the list. The result is absent exactly when the list is empty.
\<close>

theorem pickSupportStatement_policy:
  "((\<exists>e\<in>set xs. unqualified e) \<longrightarrow>
      (\<exists>ys p zs. xs = ys @ p # zs \<and> unqualified p \<and> (\<forall>y\<in>set ys. \<not> unqualified y)
         \<and> pickSupportStatement (Some (Multiple xs)) = Some p))
   \<and> (\<not> (\<exists>e\<in>set xs. unqualified e) \<and> (\<exists>e\<in>set xs. version_added e \<noteq> VNull) \<longrightarrow>
      (\<exists>ys q zs. xs = ys @ q # zs \<and> version_added q \<noteq> VNull
         \<and> (\<forall>y\<in>set ys. version_added y = VNull)
         \<and> pickSupportStatement (Some (Multiple xs)) = Some q))
   \<and> (\<not> (\<exists>e\<in>set xs. unqualified e) \<and> \<not> (\<exists>e\<in>set xs. version_added e \<noteq> VNull) \<longrightarrow>
      pickSupportStatement (Some (Multiple xs)) = (case xs of [] \<Rightarrow> None | x # _ \<Rightarrow> Some x))
   \<and> (pickSupportStatement (Some (Multiple xs)) = None \<longleftrightarrow> xs = [])"
proof (intro conjI impI)
  assume "\<exists>e\<in>set xs. unqualified e"
  then have "\<exists>e\<in>set xs. is_preferred e" by (simp add: is_preferred_unqualified)
  from find_exists [OF this] obtain p where f: "find is_preferred xs = Some p" ..
  from find_decompose [OF f] obtain ys zs
    where d: "xs = ys @ p # zs" "is_preferred p" "\<forall>y\<in>set ys. \<not> is_preferred y" by blast
  have r: "pickSupportStatement (Some (Multiple xs)) = Some p" using f by simp
  have "xs = ys @ p # zs \<and> unqualified p \<and> (\<forall>y\<in>set ys. \<not> unqualified y)
      \<and> pickSupportStatement (Some (Multiple xs)) = Some p"
    using d r by (simp add: is_preferred_unqualified)
  then show "\<exists>ys p zs. xs = ys @ p # zs \<and> unqualified p
      \<and> (\<forall>y\<in>set ys. \<not> unqualified y) \<and> pickSupportStatement (Some (Multiple xs)) = Some p"
    by (intro exI)
next
  assume a: "\<not> (\<exists>e\<in>set xs. unqualified e) \<and> (\<exists>e\<in>set xs. version_added e \<noteq> VNull)"
  then have n: "find is_preferred xs = None"
    by (simp add: find_None_iff is_preferred_unqualified)
  from a have "\<exists>e\<in>set xs. version_added e \<noteq> VNull" ..
  from find_exists [OF this] obtain q
    where f: "find (\<lambda>e. version_added e \<noteq> VNull) xs = Some q" ..
  from find_decompose [OF f] obtain ys zs
    where d: "xs = ys @ q # zs" "version_added q \<noteq> VNull"
      "\<forall>y\<in>set ys. \<not> version_added y \<noteq> VNull"
    by blast
  have r: "pickSupportStatement (Some (Multiple xs)) = Some q" using f n by simp
  have "xs = ys @ q # zs \<and> version_added q \<noteq> VNull
      \<and> (\<forall>y\<in>set ys. version_added y = VNull)
      \<and> pickSupportStatement (Some (Multiple xs)) = Some q"
    using d r by simp
  then show "\<exists>ys q zs. xs = ys @ q # zs \<and> version_added q \<noteq> VNull
      \<and> (\<forall>y\<in>set ys. version_added y = VNull)
      \<and> pickSupportStatement (Some (Multiple xs)) = Some q"
    by (intro exI)
next
  assume a: "\<not> (\<exists>e\<in>set xs. unqualified e) \<and> \<not> (\<exists>e\<in>set xs. version_added e \<noteq> VNull)"
  then have "find is_preferred xs = None"
    and "find (\<lambda>e. version_added e \<noteq> VNull) xs = None"
    by (simp_all add: find_None_iff is_preferred_unqualified)
  then show "pickSupportStatement (Some (Multiple xs)) = (case xs of [] \<Rightarrow> None | x # _ \<Rightarrow> Some x)"
    by simp
next
  show "pickSupportStatement (Some (Multiple xs)) = None \<longleftrightarrow> xs = []"
    by (cases xs) (auto split: option.splits)
qed

theorem pickSupportStatement_policy_witness:
  "(\<exists>e\<in>set ex_three. unqualified e)
   \<and> (\<exists>ys p zs. ex_three = ys @ p # zs \<and> unqualified p \<and> (\<forall>y\<in>set ys. \<not> unqualified y)
         \<and> pickSupportStatement (Some (Multiple ex_three)) = Some p)
   \<and> pickSupportStatement (Some (Multiple ex_three)) = Some (plain_statement (VStr ''57''))
   \<and> \<not> (\<exists>e\<in>set ex_two. unqualified e) \<and> (\<exists>e\<in>set ex_two. version_added e \<noteq> VNull)
   \<and> (\<exists>ys q zs. ex_two = ys @ q # zs \<and> version_added q \<noteq> VNull
         \<and> (\<forall>y\<in>set ys. version_added y = VNull)
         \<and> pickSupportStatement (Some (Multiple ex_two)) = Some q)
   \<and> pickSupportStatement (Some (Multiple ex_two)) = Some ex_flagged"
proof -
  have h1: "\<exists>e\<in>set ex_three. unqualified e"
    by (simp add: ex_three_def ex_flagged_def ex_prefixed_def plain_statement_def unqualified_def)
  have c1: "\<exists>ys p zs. ex_three = ys @ p # zs \<and> unqualified p \<and> (\<forall>y\<in>set ys. \<not> unqualified y)
         \<and> pickSupportStatement (Some (Multiple ex_three)) = Some p"
    using pickSupportStatement_policy [of ex_three] h1 by blast
  have v1: "pickSupportStatement (Some (Multiple ex_three)) = Some (plain_statement (VStr ''57''))"
    by (simp add: ex_three_def ex_flagged_def ex_prefixed_def plain_statement_def is_preferred_def)
  have h2: "\<not> (\<exists>e\<in>set ex_two. unqualified e) \<and> (\<exists>e\<in>set ex_two. version_added e \<noteq> VNull)"
    by (simp add: ex_two_def ex_flagged_def ex_prefixed_def plain_statement_def unqualified_def)
  have c2: "\<exists>ys q zs. ex_two = ys @ q # zs \<and> version_added q \<noteq> VNull
         \<and> (\<forall>y\<in>set ys. version_added y = VNull)
         \<and> pickSupportStatement (Some (Multiple ex_two)) = Some q"
    using pickSupportStatement_policy [of ex_two] h2 by blast
  have v2: "pickSupportStatement (Some (Multiple ex_two)) = Some ex_flagged"
    by (simp add: ex_two_def ex_flagged_def ex_prefixed_def plain_statement_def is_preferred_def)
  show ?thesis using h1 c1 v1 h2 c2 v2 by blast
qed

section \<open>Candidate identifiers of a property value\<close>

lemma toMdnKey_calc: "toMdnKey ''calc'' = ''calc''"
  by code_simp

lemma entries_differ: "ex_plain_entry \<noteq> ex_function_entry"
proof
  assume "ex_plain_entry = ex_function_entry"
  then have "all_browsers (VStr ''26'') chrome = all_browsers (VStr ''19'') chrome"
    by (simp add: ex_plain_entry_def ex_function_entry_def)
  then show False by (simp add: all_browsers_def plain_statement_def)
qed

text \<open>
  C2, as stated, fails: where a property has both a plain and a function-suffixed
  entry for the value of a function call, the resolver returns the plain entry.
\<close>

theorem function_candidate_order_counterexample:
  "resolveFeatureCompat ex_value_bcd (function_feature ''width'' ''calc'') = Some ex_plain_entry
   \<and> first_object ex_width (buildValueCandidates_spec ''calc'' (Some function_kind))
       = Some ex_function_entry
   \<and> ex_plain_entry \<noteq> ex_function_entry"
  by (simp add: resolveFeatureCompat_def function_feature_def ex_value_bcd_def ex_width_def
      buildValueCandidates_def buildValueCandidates_spec_def set_add_def toMdnKey_calc
      entries_differ)

lemma buildValueCandidates_function:
  "buildValueCandidates v (Some function_kind) = [toMdnKey v, toMdnKey v @ ''()'']"
  by (simp add: buildValueCandidates_def set_add_def Let_def)

text \<open>
  C2, amended. For a property-value feature of kind function call whose owning
  property is known, the candidates are the plain normalized value first and the
  function-suffixed form (with a trailing \<open>()\<close>) second, and the resolver returns
  the first of the two that names an object under the property, or nothing.
\<close>

theorem function_candidates_plain_first:
  assumes "ftype feature = property_value_type"
    and "property feature = Some p" and "p \<noteq> []"
    and "fvalue feature = Some v" and "v \<noteq> []"
    and "valueKind feature = Some function_kind"
    and "map_of (properties bcd) p = Some prop"
  shows "buildValueCandidates v (valueKind feature) = [toMdnKey v, toMdnKey v @ ''()'']
       \<and> resolveFeatureCompat bcd feature =
          (case map_of (entries prop) (toMdnKey v) of
             Some (PObject d) \<Rightarrow> Some d
           | _ \<Rightarrow>
               (case map_of (entries prop) (toMdnKey v @ ''()'') of
                  Some (PObject d) \<Rightarrow> Some d
                | _ \<Rightarrow> None))"
  using assms
  by (simp add: resolveFeatureCompat_def buildValueCandidates_function
      split: option.splits jsprop.splits)

theorem function_candidates_plain_first_witness:
  "ftype (function_feature ''width'' ''fit-content'') = property_value_type
   \<and> property (function_feature ''width'' ''fit-content'') = Some ''width''
   \<and> fvalue (function_feature ''width'' ''fit-content'') = Some ''fit-content''
   \<and> valueKind (function_feature ''width'' ''fit-content'') = Some function_kind
   \<and> map_of (properties ex_value_bcd) ''width'' = Some ex_width
   \<and> resolveFeatureCompat ex_value_bcd (function_feature ''width'' ''fit-content'')
       = Some ex_function_entry"
proof -
  have k: "toMdnKey ''fit-content'' = ''fit-content''"
    by code_simp
  have h: "ftype (function_feature ''width'' ''fit-content'') = property_value_type"
    "property (function_feature ''width'' ''fit-content'') = Some ''width''"
    "''width'' \<noteq> []"
    "fvalue (function_feature ''width'' ''fit-content'') = Some ''fit-content''"
    "''fit-content'' \<noteq> []"
    "valueKind (function_feature ''width'' ''fit-content'') = Some function_kind"
    "map_of (properties ex_value_bcd) ''width'' = Some ex_width"
    by (simp_all add: function_feature_def ex_value_bcd_def)
  show ?thesis
    using h function_candidates_plain_first [OF h]
    by (simp add: k ex_width_def)
qed

section \<open>The feature inventory\<close>

lemma add_all_Nil [simp]: "add_all fs [] = fs"
  by (simp add: add_all_def)

lemma add_all_Cons [simp]: "add_all fs (u # us) = add_all (addFeature fs u) us"
  by (simp add: add_all_def)

lemma add_all_append: "add_all fs (us @ vs) = add_all (add_all fs us) vs"
  by (simp add: add_all_def)

lemma fold_walk_usages:
  assumes "\<And>c fs. c \<in> set cs \<Longrightarrow> walk c fs = add_all fs (us c)"
  shows "fold walk cs fs = add_all fs (concat (map us cs))"
  using assms
proof (induction cs arbitrary: fs)
  case Nil
  then show ?case by simp
next
  case (Cons c cs)
  have "fold walk (c # cs) fs = fold walk cs (walk c fs)" by simp
  also have "\<dots> = fold walk cs (add_all fs (us c))" using Cons.prems by simp
  also have "\<dots> = add_all (add_all fs (us c)) (concat (map us cs))"
    using Cons.IH Cons.prems by simp
  finally show ?case by (simp add: add_all_append)
qed

lemma walk_value_usages: "walk_value host pr n fs = add_all fs (value_usages host pr n)"
proof (induction host pr n fs rule: walk_value.induct)
  case (2 host pr n cs fs)
  then show ?case by (simp add: fold_walk_usages [where us = "value_usages host pr"])
next
  case (5 host pr cs fs)
  then show ?case by (simp add: fold_walk_usages [where us = "value_usages host pr"])
next
  case (6 host pr cs fs)
  then show ?case by (simp add: fold_walk_usages [where us = "value_usages host pr"])
qed simp_all

lemma walk_declarations_usages:
  "walk_declarations host n fs = add_all fs (declaration_usages host n)"
proof (induction host n fs rule: walk_declarations.induct)
  case (1 host p v fs)
  then show ?case by (simp add: Let_def walk_value_usages)
next
  case (2 host cs fs)
  then show ?case by (simp add: fold_walk_usages [where us = "declaration_usages host"])
qed simp_all

lemma walk_nesting_usages: "walk_nesting n fs = add_all fs (nesting_usages n)"
proof (induction n fs rule: walk_nesting.induct)
  case (4 n cs fs)
  then show ?case by (simp add: fold_walk_usages [where us = nesting_usages])
next
  case (5 cs fs)
  then show ?case by (simp add: fold_walk_usages [where us = nesting_usages])
next
  case (6 cs fs)
  then show ?case by (simp add: fold_walk_usages [where us = nesting_usages])
qed simp_all

lemma collectFeatures_usages: "collectFeatures host css = add_all [] (usages host css)"
  by (simp add: collectFeatures_def usages_def walk_declarations_usages walk_nesting_usages
      add_all_append split: option.splits)

lemma addFeature_distinct:
  "distinct (map key fs) \<Longrightarrow> distinct (map key (addFeature fs f))"
  by (simp add: addFeature_def)

lemma add_all_distinct: "distinct (map key fs) \<Longrightarrow> distinct (map key (add_all fs us))"
  by (induction us arbitrary: fs) (simp_all add: addFeature_distinct)

lemma find_app:
  "find P (xs @ ys) = (case find P xs of Some x \<Rightarrow> Some x | None \<Rightarrow> find P ys)"
  by (induction xs) simp_all

lemma find_addFeature:
  "find (\<lambda>f. key f = k) (addFeature fs u) =
     (case find (\<lambda>f. key f = k) fs of
        Some x \<Rightarrow> Some x
      | None \<Rightarrow> if key u = k then Some u else None)"
proof (cases "find (\<lambda>f. key f = k) fs")
  case None
  then have n: "\<forall>x\<in>set fs. key x \<noteq> k" by (simp add: find_None_iff)
  show ?thesis
  proof (cases "key u \<in> set (map key fs)")
    case True
    with n have "key u \<noteq> k" by auto
    with None True show ?thesis by (simp add: addFeature_def)
  next
    case False
    with None show ?thesis by (simp add: addFeature_def find_app)
  qed
next
  case (Some x)
  then show ?thesis by (simp add: addFeature_def find_app)
qed

lemma find_add_all:
  "find (\<lambda>f. key f = k) (add_all fs us) =
     (case find (\<lambda>f. key f = k) fs of
        Some x \<Rightarrow> Some x
      | None \<Rightarrow> find (\<lambda>f. key f = k) us)"
proof (induction us arbitrary: fs)
  case Nil
  then show ?case by (simp split: option.splits)
next
  case (Cons u us)
  then show ?case by (simp add: find_addFeature split: option.splits)
qed

lemma distinct_key_count:
  "distinct (map key fs) \<Longrightarrow> length (filter (\<lambda>f. key f = k) fs) \<le> 1"
proof (induction fs)
  case Nil
  then show ?case by simp
next
  case (Cons a fs)
  show ?case
  proof (cases "key a = k")
    case True
    with Cons.prems have "k \<notin> key ` set fs" by simp
    then have "\<forall>f\<in>set fs. key f \<noteq> k" by blast
    then have "filter (\<lambda>f. key f = k) fs = []" by (simp add: filter_empty_conv)
    with True show ?thesis by simp
  next
    case False
    with Cons show ?thesis by simp
  qed
qed

text \<open>
  C6. The inventory holds every key at most once; the feature stored under a key is
  the first usage with that key in the order of the walk (a later usage never
  replaces it, and adding a feature whose key is present leaves the inventory as it
  is); so at most one feature has the key \<open>selector:nesting\<close>, however many nesting
  selectors the tree has. Extraction is a function of the parser's result, hence
  deterministic.
\<close>

theorem inventory_deduplicated:
  "distinct (map key (collectFeatures host css))
   \<and> find (\<lambda>f. key f = k) (collectFeatures host css) = find (\<lambda>f. key f = k) (usages host css)
   \<and> length (filter (\<lambda>f. key f = ''selector:nesting'') (collectFeatures host css)) \<le> 1
   \<and> (key feature \<in> set (map key fs) \<longrightarrow> addFeature fs feature = fs)
   \<and> (key feature \<notin> set (map key fs) \<longrightarrow> addFeature fs feature = fs @ [feature])"
proof -
  have d: "distinct (map key (collectFeatures host css))"
    by (simp add: collectFeatures_usages add_all_distinct)
  have f: "find (\<lambda>f. key f = k) (collectFeatures host css) = find (\<lambda>f. key f = k) (usages host css)"
    by (simp add: collectFeatures_usages find_add_all)
  show ?thesis using d f distinct_key_count [OF d] by (simp add: addFeature_def)
qed

lemmas string_eval = ex_host_def lower_char_def trim_examples Let_def
lemmas feature_eval = addFeature_def property_feature_def identifier_feature_def
  function_feature_def nesting_feature_def

lemma collect_nested:
  "collectFeatures ex_host ex_css_nested =
     [property_feature ''color'', identifier_feature ''color'' ''red'',
      property_feature ''width'', function_feature ''width'' ''calc'', nesting_feature]"
  by (simp add: collectFeatures_def ex_parse_def ex_tree_nested_def string_eval feature_eval)

lemma usages_nested:
  "usages ex_host ex_css_nested =
     [property_feature ''color'', identifier_feature ''color'' ''red'',
      property_feature ''color'', identifier_feature ''color'' ''red'',
      property_feature ''width'', function_feature ''width'' ''calc'',
      nesting_feature, nesting_feature]"
  by (simp add: usages_def ex_parse_def ex_tree_nested_def string_eval)

text \<open>
  A declaration in the prelude of an at-rule, as in \<open>@supports (zoom:1){a{width:0}}\<close>, is
  not reached by the first walk: the inventory has the property of the rule only.
\<close>

lemma prelude_declaration_skipped:
  "walk_declarations ex_host
     (Container [Container [Other [Other [ex_declaration ''zoom'']],
        Container [Container [Other [Other [Other []]],
                              Container [ex_declaration ''width'']]]]]) []
   = [property_feature ''width'']"
  by (simp add: ex_declaration_def string_eval feature_eval)

theorem inventory_deduplicated_witness:
  "distinct (map key (collectFeatures ex_host ex_css_nested))
   \<and> map key (collectFeatures ex_host ex_css_nested) =
        [''property:color'', ''property-value:color:red'', ''property:width'',
         ''property-value:width:calc()'', ''selector:nesting'']
   \<and> find (\<lambda>f. key f = ''selector:nesting'') (collectFeatures ex_host ex_css_nested)
        = find (\<lambda>f. key f = ''selector:nesting'') (usages ex_host ex_css_nested)
   \<and> length (filter (\<lambda>f. key f = ''selector:nesting'') (collectFeatures ex_host ex_css_nested)) \<le> 1
   \<and> key nesting_feature \<in> set (map key [property_feature ''color'', nesting_feature])
   \<and> addFeature [property_feature ''color'', nesting_feature] nesting_feature
        = [property_feature ''color'', nesting_feature]
   \<and> key (property_feature ''gap'') \<notin> set (map key [nesting_feature])
   \<and> addFeature [nesting_feature] (property_feature ''gap'')
        = [nesting_feature, property_feature ''gap'']"
proof -
  have k: "map key (collectFeatures ex_host ex_css_nested) =
        [''property:color'', ''property-value:color:red'', ''property:width'',
         ''property-value:width:calc()'', ''selector:nesting'']"
    by (simp add: collect_nested feature_eval)
  have h1: "key nesting_feature \<in> set (map key [property_feature ''color'', nesting_feature])"
    by simp
  have h2: "key (property_feature ''gap'') \<notin> set (map key [nesting_feature])"
    by (simp add: feature_eval)
  show ?thesis
    using k h1 h2
      inventory_deduplicated [of ex_host ex_css_nested "''selector:nesting''" nesting_feature
        "[property_feature ''color'', nesting_feature]"]
      inventory_deduplicated [of ex_host ex_css_nested "''selector:nesting''"
        "property_feature ''gap''" "[nesting_feature]"]
    by simp
qed

section \<open>Rounding to a double\<close>

text \<open>
  What the aggregation and the ordering of releases need to know of the numbers: a
  version read from a string is not negative and at most infinite, every number is
  a multiple of the least positive double, and the sign of a rounded difference is
  the sign of the exact difference.
\<close>

lemma digit_val_range: "is_digit c \<Longrightarrow> 0 \<le> digit_val c \<and> digit_val c \<le> 9"
  by (auto simp: is_digit_def digit_val_def)

lemma digits_to_int_snoc: "digits_to_int (ds @ [c]) = 10 * digits_to_int ds + digit_val c"
  by (simp add: digits_to_int_def)

lemma digits_to_int_nonneg: "list_all is_digit ds \<Longrightarrow> 0 \<le> digits_to_int ds"
proof (induction ds rule: rev_induct)
  case Nil
  show ?case by (simp add: digits_to_int_def)
next
  case (snoc c ds)
  then have "0 \<le> digits_to_int ds" "0 \<le> digit_val c" by (simp_all add: digit_val_range)
  then show ?case by (simp add: digits_to_int_snoc)
qed

lemma round_half_even_bounds: "\<lfloor>t\<rfloor> \<le> round_half_even t \<and> round_half_even t \<le> \<lfloor>t\<rfloor> + 1"
  by (simp add: round_half_even_def Let_def)

lemma round_half_even_nonneg: "0 \<le> t \<Longrightarrow> 0 \<le> round_half_even t"
proof -
  assume "0 \<le> t"
  then have "0 \<le> \<lfloor>t\<rfloor>" by simp
  with round_half_even_bounds [of t] show ?thesis by linarith
qed

lemma infinity_pos: "0 < infinity"
  by (simp add: infinity_def)

lemma round_double_nonneg: "0 \<le> r \<Longrightarrow> 0 \<le> round_double r"
proof -
  assume r: "0 \<le> r"
  show ?thesis
  proof (cases "r = 0")
    case True
    then show ?thesis by (simp add: round_double_def)
  next
    case False
    with r have p: "0 < r" by simp
    then have s: "sgn r = 1" "\<bar>r\<bar> = r" by simp_all
    have "0 \<le> of_int (round_half_even (r / 2 powi q)) * (2::rat) powi q" for q
    proof -
      have "0 \<le> r / 2 powi q" using r by simp
      then have "0 \<le> round_half_even (r / 2 powi q)" by (rule round_half_even_nonneg)
      then show ?thesis by simp
    qed
    then show ?thesis using infinity_pos by (simp add: round_double_def Let_def s)
  qed
qed

lemma parseFloat_rounded: "parseFloat s = Num r \<Longrightarrow> \<exists>x. 0 \<le> x \<and> r = round_double x"
proof -
  assume a: "parseFloat s = Num r"
  let ?ip = "takeWhile is_digit s"
  let ?fp = "case dropWhile is_digit s of [] \<Rightarrow> [] | c # r \<Rightarrow> if c = CHR ''.'' then takeWhile is_digit r else []"
  let ?x = "(of_int (digits_to_int ?ip) :: rat) + of_int (digits_to_int ?fp) / 10 ^ length ?fp"
  have i: "list_all is_digit ?ip" by (simp add: list_all_iff) (meson set_takeWhileD)
  have f: "list_all is_digit ?fp"
    by (auto simp: list_all_iff split: list.splits dest: set_takeWhileD)
  have "0 \<le> ?x"
    using digits_to_int_nonneg [OF i] digits_to_int_nonneg [OF f] by simp
  moreover have "r = round_double ?x"
    using a by (auto simp: parseFloat_def Let_def split: if_splits)
  ultimately show ?thesis by blast
qed

lemma parseFloat_nonneg: "parseFloat s = Num r \<Longrightarrow> 0 \<le> r"
  using parseFloat_rounded [of s r] round_double_nonneg by blast

lemma bit_length_bounds:
  "0 < n \<Longrightarrow> \<exists>k::nat. bit_length n = int k + 1 \<and> 2 ^ k \<le> n \<and> n < 2 ^ (k + 1)"
proof (induction n rule: bit_length.induct)
  case (1 n)
  show ?case
  proof (cases "n div 2 \<le> 0")
    case True
    with 1(2) have n: "n = 1" by simp
    have "bit_length 1 = 1" by (simp add: bit_length.simps [of 1] bit_length.simps [of 0])
    with n show ?thesis by (intro exI [of _ 0]) simp
  next
    case False
    then have p: "0 < n div 2" by simp
    have "\<not> n \<le> 0" using 1(2) by simp
    from 1(1) [OF this p] obtain k where k: "bit_length (n div 2) = int k + 1" "2 ^ k \<le> n div 2"
      "n div 2 < 2 ^ (k + 1)" by blast
    have b: "bit_length n = int (k + 1) + 1" using 1(2) k(1) by (simp add: bit_length.simps [of n])
    have l: "2 ^ (k + 1) \<le> n" using k(2) by simp
    have u: "n < 2 ^ (k + 1 + 1)" using k(3) by simp
    from b l u show ?thesis by blast
  qed
qed


lemma floor_log2_bounds:
  assumes "0 < a"
  shows "2 powi (floor_log2 a) \<le> a \<and> a < 2 powi (floor_log2 a + 1)"
proof -
  obtain p q where pq: "quotient_of a = (p, q)" by (cases "quotient_of a")
  then have q: "0 < q" by (rule quotient_of_denom_pos)
  have a: "a = of_int p / of_int q" using pq by (rule quotient_of_div)
  have p: "0 < p" using assms q a by (simp add: zero_less_divide_iff)
  from bit_length_bounds [OF p] obtain kp where kp: "bit_length p = int kp + 1" "2 ^ kp \<le> p"
    "p < 2 ^ (kp + 1)" by blast
  from bit_length_bounds [OF q] obtain kq where kq: "bit_length q = int kq + 1" "2 ^ kq \<le> q"
    "q < 2 ^ (kq + 1)" by blast
  let ?d = "int kp - int kq"
  have lo: "(2::rat) powi (?d - 1) \<le> a"
  proof -
    have "(2::rat) powi (?d - 1) = 2 ^ kp / 2 ^ (kq + 1)"
      by (simp add: power_int_diff power_int_add)
    also have "\<dots> \<le> of_int p / of_int q"
    proof (rule frac_le)
      show "(0::rat) \<le> of_int p" using p by simp
      show "(2::rat) ^ kp \<le> of_int p" using kp(2) by (metis of_int_le_iff of_int_numeral of_int_power)
      show "(0::rat) < of_int q" using q by simp
      show "(of_int q :: rat) \<le> 2 ^ (kq + 1)" using kq(3)
        by (metis less_imp_le of_int_le_iff of_int_numeral of_int_power)
    qed
    finally show ?thesis by (simp add: a)
  qed
  have hi: "a < (2::rat) powi (?d + 1)"
  proof -
    have "of_int p / of_int q < (2::rat) ^ (kp + 1) / 2 ^ kq"
    proof (rule frac_less)
      show "(0::rat) \<le> of_int p" using p by simp
      show "(of_int p :: rat) < 2 ^ (kp + 1)" using kp(3)
        by (metis of_int_less_iff of_int_numeral of_int_power)
      show "(0::rat) < 2 ^ kq" by simp
      show "(2::rat) ^ kq \<le> of_int q" using kq(2) by (metis of_int_le_iff of_int_numeral of_int_power)
    qed
    also have "\<dots> = 2 powi (?d + 1)"
      by (simp add: power_int_diff power_int_add)
    finally show ?thesis by (simp add: a)
  qed
  have f: "floor_log2 a = (if 2 powi ?d \<le> a then ?d else ?d - 1)"
    by (simp add: floor_log2_def pq kp(1) kq(1) Let_def)
  show ?thesis
  proof (cases "2 powi ?d \<le> a")
    case True
    then show ?thesis using hi by (simp add: f)
  next
    case False
    then have "a < 2 powi ?d" by simp
    then show ?thesis using lo False by (simp add: f)
  qed
qed


lemma infinity_powi: "infinity = 2 powi 1024"
  unfolding infinity_def by (simp only: power_int_of_nat [symmetric] of_nat_numeral)

lemma unit_pos: "(0::rat) < 2 powi q"
  by simp

lemma round_double_uminus: "round_double (- r) = - round_double r"
  by (simp add: round_double_def Let_def)

lemma round_double_pos:
  assumes "2 powi (- 1074) \<le> r"
  shows "0 < round_double r"
proof -
  have u: "(0::rat) < 2 powi (- 1074)" by (rule unit_pos)
  with assms have p: "0 < r" by simp
  then have s: "sgn r = 1" "\<bar>r\<bar> = r" "r \<noteq> 0" by simp_all
  show ?thesis
  proof (cases "infinity \<le> r")
    case True
    then show ?thesis using infinity_pos by (simp add: round_double_def Let_def s)
  next
    case False
    let ?q = "max (floor_log2 r - 52) (- 1074)"
    have "(2::rat) powi ?q \<le> r"
    proof (cases "floor_log2 r - 52 \<le> - 1074")
      case True
      then have "?q = - 1074" by simp
      then show ?thesis using assms by simp
    next
      case f: False
      then have "?q = floor_log2 r - 52" by simp
      moreover have "(2::rat) powi (floor_log2 r - 52) \<le> 2 powi (floor_log2 r)"
        by (rule power_int_increasing) simp_all
      moreover have "2 powi (floor_log2 r) \<le> r" using floor_log2_bounds [OF p] by blast
      ultimately show ?thesis by simp
    qed
    then have "1 \<le> r / 2 powi ?q" by (simp add: le_divide_eq)
    then have "1 \<le> \<lfloor>r / 2 powi ?q\<rfloor>" by simp
    with round_half_even_bounds [of "r / 2 powi ?q"]
    have "1 \<le> round_half_even (r / 2 powi ?q)" by linarith
    then have "(0::rat) < of_int (round_half_even (r / 2 powi ?q))" by simp
    then have "0 < of_int (round_half_even (r / 2 powi ?q)) * (2::rat) powi ?q"
      by (simp add: zero_less_mult_iff)
    then show ?thesis using False by (simp add: round_double_def Let_def s)
  qed
qed

lemma significand_bound:
  assumes "0 < r"
  shows "round_half_even (r / 2 powi (max (floor_log2 r - 52) (- 1074))) \<le> 2 ^ 53"
proof -
  let ?f = "floor_log2 r"
  let ?q = "max (?f - 52) (- 1074)"
  note b = floor_log2_bounds [OF assms]
  have "r < 2 powi (?f + 1)" using b by blast
  also have "\<dots> = 2 powi (53 + (?f - 52))" by (simp add: add.commute)
  also have "\<dots> = 2 powi 53 * 2 powi (?f - 52)" by (rule power_int_add) simp
  also have "\<dots> \<le> 2 powi 53 * 2 powi ?q"
    by (intro mult_left_mono power_int_increasing) simp_all
  finally have "r < 2 powi 53 * 2 powi ?q" .
  then have "r / 2 powi ?q < 2 powi 53" by (simp only: divide_less_eq unit_pos if_True)
  moreover have "(2::rat) powi 53 = of_int (2 ^ 53)" by simp
  ultimately have "r / 2 powi ?q < of_int (2 ^ 53)" by (simp only:)
  then have "\<lfloor>r / 2 powi ?q\<rfloor> < 2 ^ 53" by (simp only: floor_less_iff)
  with round_half_even_bounds [of "r / 2 powi ?q"] show ?thesis by linarith
qed

lemma rounded_bound:
  assumes "0 < r"
  shows "(of_int (round_half_even (r / 2 powi (max (floor_log2 r - 52) (- 1074)))) :: rat)
           * 2 powi (max (floor_log2 r - 52) (- 1074))
         \<le> 2 powi (53 + max (floor_log2 r - 52) (- 1074))"
proof -
  let ?q = "max (floor_log2 r - 52) (- 1074)"
  have "(of_int (round_half_even (r / 2 powi ?q)) :: rat) \<le> of_int (2 ^ 53)"
    using significand_bound [OF assms] by (simp only: of_int_le_iff)
  moreover have "(2::rat) powi 53 = of_int (2 ^ 53)" by simp
  ultimately have "(of_int (round_half_even (r / 2 powi ?q)) :: rat) \<le> 2 powi 53"
    by (simp only:)
  then have "(of_int (round_half_even (r / 2 powi ?q)) :: rat) * 2 powi ?q \<le> 2 powi 53 * 2 powi ?q"
    by (rule mult_right_mono) simp
  also have "\<dots> = 2 powi (53 + ?q)" by (rule power_int_add [symmetric]) simp
  finally show ?thesis .
qed

lemma round_double_le:
  assumes "0 \<le> r"
  shows "round_double r \<le> infinity"
proof (cases "r = 0")
  case True
  then show ?thesis using infinity_pos by (simp add: round_double_def)
next
  case False
  with assms have p: "0 < r" by simp
  then have s: "sgn r = 1" "\<bar>r\<bar> = r" "r \<noteq> 0" by simp_all
  show ?thesis
  proof (cases "infinity \<le> r")
    case True
    then show ?thesis by (simp add: round_double_def Let_def s)
  next
    case f: False
    let ?f = "floor_log2 r"
    let ?q = "max (?f - 52) (- 1074)"
    note b = floor_log2_bounds [OF p]
    have lt: "(2::rat) powi ?f < infinity" using b f by simp
    have fl: "?f < 1024"
    proof (rule ccontr)
      assume "\<not> ?f < 1024"
      then have "(2::rat) powi 1024 \<le> 2 powi ?f" by (intro power_int_increasing) simp_all
      then have "infinity \<le> 2 powi ?f" by (simp only: infinity_powi)
      with lt show False by simp
    qed
    have q: "?q \<le> 971" using fl by simp
    note rounded_bound [OF p]
    also have "(2::rat) powi (53 + ?q) \<le> 2 powi 1024" using q by (intro power_int_increasing) simp_all
    finally have "(of_int (round_half_even (r / 2 powi ?q)) :: rat) * 2 powi ?q \<le> infinity"
      by (simp only: infinity_powi)
    then show ?thesis using f by (simp add: round_double_def Let_def s)
  qed
qed

text \<open>A double that is not whole is at most \<open>2^52\<close>.\<close>

lemma round_double_fraction:
  assumes "0 \<le> r" and "round_double r \<noteq> of_int \<lfloor>round_double r\<rfloor>"
  shows "round_double r \<le> 2 powi 52"
proof -
  have z: "r \<noteq> 0" using assms(2) by (auto simp: round_double_def)
  with assms(1) have p: "0 < r" by simp
  then have s: "sgn r = 1" "\<bar>r\<bar> = r" by simp_all
  have i: "\<not> infinity \<le> r"
  proof
    assume "infinity \<le> r"
    then have "round_double r = of_int (2 ^ 1024)" by (simp add: round_double_def Let_def s z infinity_def)
    then have "round_double r = of_int \<lfloor>round_double r\<rfloor>" by (simp only: floor_of_int)
    with assms(2) show False by simp
  qed
  let ?q = "max (floor_log2 r - 52) (- 1074)"
  let ?n = "round_half_even (r / 2 powi ?q)"
  have e: "round_double r = of_int ?n * 2 powi ?q" using i by (simp add: round_double_def Let_def s z)
  have q: "?q < 0"
  proof (rule ccontr)
    assume "\<not> ?q < 0"
    then have "(2::rat) powi ?q = 2 powi (int (nat ?q))" by simp
    also have "\<dots> = of_int (2 ^ nat ?q)" by (simp only: power_int_of_nat of_int_power of_int_numeral)
    finally have "round_double r = of_int (?n * 2 ^ nat ?q)" by (simp add: e)
    then have "round_double r = of_int \<lfloor>round_double r\<rfloor>" by (simp only: floor_of_int)
    with assms(2) show False by simp
  qed
  have "round_double r \<le> 2 powi (53 + ?q)" using rounded_bound [OF p] by (simp only: e)
  also have "(2::rat) powi (53 + ?q) \<le> 2 powi 52" using q by (intro power_int_increasing) simp_all
  finally show ?thesis .
qed

lemma power_grid:
  assumes "- 1074 \<le> q"
  shows "\<exists>k::int. (2::rat) powi q = of_int k * 2 powi (- 1074)"
proof -
  have "(2::rat) powi q = 2 powi (int (nat (q + 1074)) + (- 1074))" using assms by simp
  also have "\<dots> = 2 powi (int (nat (q + 1074))) * 2 powi (- 1074)"
    by (rule power_int_add) simp
  also have "\<dots> = of_int (2 ^ nat (q + 1074)) * 2 powi (- 1074)"
    by (simp only: power_int_of_nat of_int_power of_int_numeral)
  finally show ?thesis by blast
qed

lemma sgn_int: "\<exists>s::int. sgn (r::rat) = of_int s"
proof (cases "r < 0")
  case True
  then have "sgn r = of_int (- 1)" by simp
  then show ?thesis by blast
next
  case False
  show ?thesis
  proof (cases "r = 0")
    case True
    then have "sgn r = of_int 0" by simp
    then show ?thesis by blast
  next
    case f: False
    with False have "sgn r = of_int 1" by simp
    then show ?thesis by blast
  qed
qed

lemma round_double_grid: "\<exists>k::int. round_double r = of_int k * 2 powi (- 1074)"
proof -
  obtain s :: int where s: "sgn r = of_int s" using sgn_int by blast
  have "(- 1074 :: int) \<le> 1024" by simp
  from power_grid [OF this] obtain ki :: int where ki: "infinity = of_int ki * 2 powi (- 1074)"
    unfolding infinity_powi by blast
  let ?q = "max (floor_log2 \<bar>r\<bar> - 52) (- 1074)"
  have "- 1074 \<le> ?q" by simp
  from power_grid [OF this] obtain kq :: int
    where kq: "(2::rat) powi ?q = of_int kq * 2 powi (- 1074)" by blast
  let ?n = "round_half_even (\<bar>r\<bar> / 2 powi ?q)"
  have 0: "(0::rat) = of_int 0 * 2 powi (- 1074)" by simp
  have 1: "sgn r * infinity = of_int (s * ki) * 2 powi (- 1074)" by (simp add: s ki)
  have 2: "sgn r * (of_int ?n * 2 powi ?q) = of_int (s * ?n * kq) * 2 powi (- 1074)"
    by (simp add: s kq)
  have "round_double r = 0 \<or> round_double r = sgn r * infinity
      \<or> round_double r = sgn r * (of_int ?n * 2 powi ?q)"
    by (simp add: round_double_def Let_def)
  then show ?thesis using 0 1 2 by metis
qed

lemma round_double_sign:
  assumes "\<exists>k::int. r = of_int k * 2 powi (- 1074)"
  shows "(round_double r < 0 \<longleftrightarrow> r < 0) \<and> (round_double r = 0 \<longleftrightarrow> r = 0)"
proof -
  from assms obtain k :: int where k: "r = of_int k * 2 powi (- 1074)" by blast
  have u: "(0::rat) < 2 powi (- 1074)" by (rule unit_pos)
  consider "k = 0" | "1 \<le> k" | "k \<le> - 1" by linarith
  then show ?thesis
  proof cases
    case 1
    then show ?thesis by (simp add: k round_double_def)
  next
    case 2
    then have "(1::rat) \<le> of_int k" by simp
    then have "1 * 2 powi (- 1074) \<le> of_int k * (2::rat) powi (- 1074)"
      by (rule mult_right_mono) simp
    then have "2 powi (- 1074) \<le> r" by (simp add: k)
    from round_double_pos [OF this] this u show ?thesis by simp
  next
    case 3
    then have "(1::rat) \<le> of_int (- k)" by simp
    then have "1 * 2 powi (- 1074) \<le> of_int (- k) * (2::rat) powi (- 1074)"
      by (rule mult_right_mono) simp
    then have l: "2 powi (- 1074) \<le> - r" by (simp add: k)
    from round_double_pos [OF l] have "round_double r < 0" by (simp add: round_double_uminus)
    moreover have "r < 0" using l u by simp
    ultimately show ?thesis by simp
  qed
qed

lemma js_minus_sign:
  assumes ga: "\<exists>k::int. a = of_int k * 2 powi (- 1074)"
    and gb: "\<exists>k::int. b = of_int k * 2 powi (- 1074)"
    and ba: "\<bar>a\<bar> \<le> infinity" and bb: "\<bar>b\<bar> \<le> infinity"
  shows "(js_minus (Num a) (Num b) = NaN \<and> a = b)
       \<or> (\<exists>d. js_minus (Num a) (Num b) = Num d \<and> (d < 0 \<longleftrightarrow> a < b) \<and> (d = 0 \<longleftrightarrow> a = b))"
proof (cases "\<bar>a\<bar> = infinity \<or> \<bar>b\<bar> = infinity")
  case True
  note i = infinity_pos
  show ?thesis
  proof (cases "a = b")
    case e: True
    with True show ?thesis by simp
  next
    case ne: False
    show ?thesis
    proof (cases "\<bar>a\<bar> = infinity")
      case t: True
      then have "js_minus (Num a) (Num b) = Num a" using ne by simp
      moreover have "(a < 0 \<longleftrightarrow> a < b) \<and> (a = 0 \<longleftrightarrow> a = b)" using t ne bb i by auto
      ultimately show ?thesis by blast
    next
      case f: False
      with True have b: "\<bar>b\<bar> = infinity" by simp
      then have "js_minus (Num a) (Num b) = Num (- b)" using ne f by simp
      moreover have "(- b < 0 \<longleftrightarrow> a < b) \<and> (- b = 0 \<longleftrightarrow> a = b)" using b f ne ba i by auto
      ultimately show ?thesis by blast
    qed
  qed
next
  case False
  from ga gb obtain ka kb :: int where k: "a = of_int ka * 2 powi (- 1074)"
    "b = of_int kb * 2 powi (- 1074)" by blast
  have "a - b = of_int (ka - kb) * 2 powi (- 1074)" by (simp add: k algebra_simps)
  then have "\<exists>k::int. a - b = of_int k * 2 powi (- 1074)" by blast
  from round_double_sign [OF this]
  have "(round_double (a - b) < 0 \<longleftrightarrow> a < b) \<and> (round_double (a - b) = 0 \<longleftrightarrow> a = b)" by simp
  moreover have "js_minus (Num a) (Num b) = Num (round_double (a - b))" using False by simp
  ultimately show ?thesis by blast
qed

section \<open>The aggregation, browser by browser\<close>

lemma browser_step_other:
  "b' \<noteq> b \<Longrightarrow> slot_of (browser_step f tbl b' st) b = slot_of st b"
  by (simp add: browser_step_def slot_of_def split: option.splits)

lemma browser_step_same:
  "slot_of (browser_step f tbl b st) b =
     slot_step (label f)
       (case pickSupportStatement (tbl b) of
          None \<Rightarrow> NoInformation
        | Some statement \<Rightarrow>
            (case normalizeVersion (version_added statement) of
               None \<Rightarrow> NeverSupported
             | Some v \<Rightarrow> Since v))
       (slot_of st b)"
  by (simp add: browser_step_def slot_of_def split: option.splits)

lemma browsers_fold:
  "slot_of (fold (browser_step f tbl) SUPPORTED_BROWSERS st) b =
     slot_of (browser_step f tbl b st) b"
proof (cases b)
  case chrome
  then show ?thesis
    by (simp add: SUPPORTED_BROWSERS_def browser_step_other)
next
  case firefox
  have "slot_of (browser_step f tbl firefox (browser_step f tbl chrome st)) firefox
      = slot_of (browser_step f tbl firefox st) firefox"
    by (simp add: browser_step_same browser_step_other)
  with firefox show ?thesis
    by (simp add: SUPPORTED_BROWSERS_def browser_step_other)
next
  case safari
  have "slot_of (browser_step f tbl safari (browser_step f tbl firefox (browser_step f tbl chrome st))) safari
      = slot_of (browser_step f tbl safari st) safari"
    by (simp add: browser_step_same browser_step_other)
  with safari show ?thesis
    by (simp add: SUPPORTED_BROWSERS_def)
qed

lemma feature_step_slot:
  "slot_of (feature_step bcd f st) b = slot_step (label f) (feature_verdict bcd b f) (slot_of st b)"
  by (simp add: feature_step_def feature_verdict_def browsers_fold browser_step_same
      split: option.splits)

lemma aggregate_snoc: "aggregate bcd (fs @ [f]) = feature_step bcd f (aggregate bcd fs)"
  by (simp add: aggregate_def)

lemma aggregate_slot:
  "slot_of (aggregate bcd fs) b =
     fold (\<lambda>f. slot_step (label f) (feature_verdict bcd b f)) fs (Num 0, None, None, None)"
proof (induction fs rule: rev_induct)
  case Nil
  then show ?case by (simp add: aggregate_def initial_state_def slot_of_def)
next
  case (snoc f fs)
  then show ?case by (simp add: aggregate_snoc feature_step_slot)
qed

lemma supported_versions_snoc:
  "supported_versions bcd b (fs @ [x]) =
     supported_versions bcd b fs @
       (case feature_verdict bcd b x of Since (Num r) \<Rightarrow> [(label x, r)] | _ \<Rightarrow> [])"
  by (simp add: supported_versions_def List.map_filter_def split: verdict.splits jsnum.splits)

lemma slot_fold_limits:
  "\<exists>u'. fold (\<lambda>f. slot_step (label f) (feature_verdict bcd b f)) fs (Num m, u, f0, v0)
        = (case fold lim_step (supported_versions bcd b fs) (m, f0, v0) of
             (m', f', v') \<Rightarrow> (Num m', u', f', v'))"
proof (induction fs rule: rev_induct)
  case Nil
  then show ?case by (simp add: supported_versions_def List.map_filter_def)
next
  case (snoc x fs)
  then obtain u' where IH:
    "fold (\<lambda>f. slot_step (label f) (feature_verdict bcd b f)) fs (Num m, u, f0, v0)
        = (case fold lim_step (supported_versions bcd b fs) (m, f0, v0) of
             (m', f', v') \<Rightarrow> (Num m', u', f', v'))" by blast
  obtain m1 f1 v1 where s: "fold lim_step (supported_versions bcd b fs) (m, f0, v0) = (m1, f1, v1)"
    by (cases "fold lim_step (supported_versions bcd b fs) (m, f0, v0)") auto
  show ?case
  proof (cases "feature_verdict bcd b x")
    case NoInformation
    then show ?thesis using IH s by (simp add: supported_versions_snoc)
  next
    case NeverSupported
    then show ?thesis using IH s by (simp add: supported_versions_snoc)
  next
    case (Since y)
    then show ?thesis using IH s by (cases y) (simp_all add: supported_versions_snoc)
  qed
qed

lemma top_version_snoc:
  "top_version m (svs @ [(l, r)]) = max r (top_version m svs)"
proof -
  have e: "insert m (snd ` set (svs @ [(l, r)])) = insert r (insert m (snd ` set svs))"
    by auto
  have "Max (insert r (insert m (snd ` set svs))) = max r (Max (insert m (snd ` set svs)))"
    by (rule Max_insert) simp_all
  then show ?thesis by (simp only: top_version_def e)
qed

lemma top_version_ge: "m \<le> top_version m svs"
  by (simp add: top_version_def)

lemma lim_fold:
  "fold lim_step svs (m, f0, v0) =
     (top_version m svs,
      (if filter (\<lambda>p. snd p = top_version m svs) svs = [] then f0
       else Some (fst (last (filter (\<lambda>p. snd p = top_version m svs) svs)))),
      (if filter (\<lambda>p. snd p = top_version m svs) svs = [] then v0
       else Some (Num (top_version m svs))))"
proof (induction svs rule: rev_induct)
  case Nil
  then show ?case by (simp add: top_version_def)
next
  case (snoc x svs)
  obtain l r where x: "x = (l, r)" by (cases x)
  let ?M = "top_version m svs"
  have step: "fold lim_step (svs @ [x]) (m, f0, v0) = lim_step (l, r) (fold lim_step svs (m, f0, v0))"
    by (simp add: x)
  show ?case
  proof (cases "?M \<le> r")
    case True
    then have t: "top_version m (svs @ [x]) = r" by (simp add: x top_version_snoc)
    have f: "filter (\<lambda>p. snd p = r) (svs @ [x]) = filter (\<lambda>p. snd p = r) svs @ [(l, r)]"
      by (simp add: x)
    show ?thesis unfolding step t f snoc.IH using True by simp
  next
    case False
    then have t: "top_version m (svs @ [x]) = ?M" by (simp add: x top_version_snoc)
    from False have "r \<noteq> ?M" by simp
    then have f: "filter (\<lambda>p. snd p = ?M) (svs @ [x]) = filter (\<lambda>p. snd p = ?M) svs"
      by (simp add: x)
    show ?thesis unfolding step t f snoc.IH using False by simp
  qed
qed

lemma top_version_attained:
  assumes "svs \<noteq> []" and "\<forall>p\<in>set svs. m \<le> snd p"
  shows "top_version m svs = Max (snd ` set svs)"
    and "filter (\<lambda>p. snd p = top_version m svs) svs \<noteq> []"
proof -
  let ?S = "snd ` set svs"
  have ne: "?S \<noteq> {}" and fin: "finite ?S" using assms(1) by simp_all
  have "Max (insert m ?S) = max m (Max ?S)" using fin ne by (rule Max_insert)
  moreover have "m \<le> Max ?S"
  proof -
    from assms(1) obtain p where p: "p \<in> set svs" by (cases svs) auto
    then have "m \<le> snd p" using assms(2) by blast
    also have "snd p \<le> Max ?S" using p fin by (simp add: Max_ge)
    finally show ?thesis .
  qed
  ultimately show eq: "top_version m svs = Max ?S" by (simp add: top_version_def max_def)
  have "Max ?S \<in> ?S" using fin ne by (rule Max_in)
  then obtain p where "p \<in> set svs" "snd p = Max ?S" by auto
  then show "filter (\<lambda>p. snd p = top_version m svs) svs \<noteq> []"
    by (auto simp: eq filter_empty_conv)
qed

lemma normalizeVersion_nonneg: "normalizeVersion v = Some (Num r) \<Longrightarrow> 0 \<le> r"
  by (auto simp: normalizeVersion_def Let_def parseFloat_nonneg
      split: version.splits bool.splits if_splits)

lemma feature_verdict_nonneg: "feature_verdict bcd b f = Since (Num r) \<Longrightarrow> 0 \<le> r"
  by (auto simp: feature_verdict_def normalizeVersion_nonneg split: option.splits)

lemma supported_versions_nonneg: "\<forall>p\<in>set (supported_versions bcd b fs). 0 \<le> snd p"
  by (auto simp: supported_versions_def List.map_filter_def feature_verdict_nonneg
      split: verdict.splits jsnum.splits)

lemma aggregate_limits:
  "minimum (aggregate bcd fs) b = Num (top_version 0 (supported_versions bcd b fs))
   \<and> limitingFeature (aggregate bcd fs) b =
       (if filter (\<lambda>p. snd p = top_version 0 (supported_versions bcd b fs))
             (supported_versions bcd b fs) = [] then None
        else Some (fst (last (filter (\<lambda>p. snd p = top_version 0 (supported_versions bcd b fs))
                                (supported_versions bcd b fs)))))
   \<and> limitingVersion (aggregate bcd fs) b =
       (if filter (\<lambda>p. snd p = top_version 0 (supported_versions bcd b fs))
             (supported_versions bcd b fs) = [] then None
        else Some (Num (top_version 0 (supported_versions bcd b fs))))"
proof -
  obtain u' where
    "slot_of (aggregate bcd fs) b =
       (case fold lim_step (supported_versions bcd b fs) (0, None, None) of
          (m', f', v') \<Rightarrow> (Num m', u', f', v'))"
    using slot_fold_limits [of bcd b fs 0 None None None] by (auto simp: aggregate_slot)
  then show ?thesis by (simp add: lim_fold slot_of_def)
qed

text \<open>
  C4. For every browser, the running minimum is the maximum of the numeric
  added-versions of the features that resolve to a supported statement (0 when there
  is none), and the limiting feature is the last feature, in processing order, whose
  version equals that maximum: on equal versions the later feature wins. Two
  declarations that need versions 80 and 90 give the minimum 90 and the second
  property as limiting feature.
\<close>

theorem running_minimum_is_maximum:
  "(supported_versions bcd b fs = [] \<longrightarrow>
      minimum (aggregate bcd fs) b = Num 0 \<and> limitingFeature (aggregate bcd fs) b = None)
   \<and> (supported_versions bcd b fs \<noteq> [] \<longrightarrow>
      minimum (aggregate bcd fs) b = Num (Max (snd ` set (supported_versions bcd b fs)))
      \<and> limitingFeature (aggregate bcd fs) b =
          Some (fst (last (filter (\<lambda>p. snd p = Max (snd ` set (supported_versions bcd b fs)))
                             (supported_versions bcd b fs))))
      \<and> limitingVersion (aggregate bcd fs) b =
          Some (Num (Max (snd ` set (supported_versions bcd b fs)))))"
proof -
  have empty: "minimum (aggregate bcd fs) b = Num 0 \<and> limitingFeature (aggregate bcd fs) b = None"
    if e: "supported_versions bcd b fs = []"
    using aggregate_limits [of bcd fs b] by (simp add: e top_version_def)
  have nonempty: "minimum (aggregate bcd fs) b = Num (Max (snd ` set (supported_versions bcd b fs)))
      \<and> limitingFeature (aggregate bcd fs) b =
          Some (fst (last (filter (\<lambda>p. snd p = Max (snd ` set (supported_versions bcd b fs)))
                             (supported_versions bcd b fs))))
      \<and> limitingVersion (aggregate bcd fs) b =
          Some (Num (Max (snd ` set (supported_versions bcd b fs))))"
    if ne: "supported_versions bcd b fs \<noteq> []"
  proof -
    note a = top_version_attained [OF ne supported_versions_nonneg]
    show ?thesis using aggregate_limits [of bcd fs b] a(2) by (simp add: a(1))
  qed
  show ?thesis using empty nonempty by blast
qed

lemmas resolve_eval = resolveFeatureCompat_def feature_verdict_def ex_bcd_def all_browsers_def
  plain_statement_def ex_zoom_support_def ex_appearance_support_def
lemma version_eval:
  "normalizeVersion (VBool True) = Some (Num 0)"
  "normalizeVersion (VBool False) = None"
  "normalizeVersion (VStr ''preview'') = None"
  "normalizeVersion (VStr ''80'') = Some (Num 80)"
  "normalizeVersion (VStr ''90'') = Some (Num 90)"
  "normalizeVersion (VStr ''120'') = Some (Num 120)"
  "normalizeVersion (VStr ''15.4'') = Some (Num (8669429282688205 / 562949953421312))"
  by code_simp+

lemma collect_gap_inset:
  "collectFeatures ex_host ''a{gap:1px;inset:0}'' = [property_feature ''gap'', property_feature ''inset'']"
  by (simp add: collectFeatures_def ex_parse_def ex_css_nested_def ex_rule_def ex_declaration_def
      string_eval feature_eval)

lemma collect_inset_order:
  "collectFeatures ex_host ''a{inset:0;order:1}'' = [property_feature ''inset'', property_feature ''order'']"
  by (simp add: collectFeatures_def ex_parse_def ex_css_nested_def ex_rule_def ex_declaration_def
      string_eval feature_eval)

lemma versions_gap_inset:
  "supported_versions ex_bcd chrome [property_feature ''gap'', property_feature ''inset'']
     = [(''gap'', 80), (''inset'', 90)]"
  by (simp add: supported_versions_def List.map_filter_def resolve_eval version_eval
      property_feature_def)

lemma versions_inset_order:
  "supported_versions ex_bcd chrome [property_feature ''inset'', property_feature ''order'']
     = [(''inset'', 90), (''order'', 90)]"
  by (simp add: supported_versions_def List.map_filter_def resolve_eval version_eval
      property_feature_def)

theorem running_minimum_is_maximum_witness:
  "supported_versions ex_bcd chrome (collectFeatures ex_host ''a{gap:1px;inset:0}'') \<noteq> []
   \<and> minimum (aggregate ex_bcd (collectFeatures ex_host ''a{gap:1px;inset:0}'')) chrome = Num 90
   \<and> limitingFeature (aggregate ex_bcd (collectFeatures ex_host ''a{gap:1px;inset:0}'')) chrome
       = Some ''inset''
   \<and> supported_versions ex_bcd chrome (collectFeatures ex_host ''a{inset:0;order:1}'') \<noteq> []
   \<and> minimum (aggregate ex_bcd (collectFeatures ex_host ''a{inset:0;order:1}'')) chrome = Num 90
   \<and> limitingFeature (aggregate ex_bcd (collectFeatures ex_host ''a{inset:0;order:1}'')) chrome
       = Some ''order''
   \<and> supported_versions ex_bcd chrome [] = []
   \<and> minimum (aggregate ex_bcd []) chrome = Num 0
   \<and> limitingFeature (aggregate ex_bcd []) chrome = None"
proof -
  have m1: "Max (snd ` set [(''gap'', 80::rat), (''inset'', 90)]) = 90" by simp
  have m2: "Max (snd ` set [(''inset'', 90::rat), (''order'', 90)]) = 90" by simp
  have e: "supported_versions ex_bcd chrome [] = []"
    by (simp add: supported_versions_def List.map_filter_def)
  show ?thesis
    using running_minimum_is_maximum [of ex_bcd chrome "[property_feature ''gap'', property_feature ''inset'']"]
      running_minimum_is_maximum [of ex_bcd chrome "[property_feature ''inset'', property_feature ''order'']"]
      running_minimum_is_maximum [of ex_bcd chrome "[]"]
    by (simp add: collect_gap_inset collect_inset_order versions_gap_inset versions_inset_order
        m1 m2 e)
qed

section \<open>Unsupported features\<close>

lemma aggregate_unsupported:
  "unsupported_acc (aggregate bcd fs) b =
     (if unsupported_labels bcd b fs = [] then None else Some (unsupported_labels bcd b fs))"
proof (induction fs rule: rev_induct)
  case Nil
  then show ?case by (simp add: aggregate_def initial_state_def unsupported_labels_def)
next
  case (snoc x fs)
  have "slot_of (aggregate bcd (fs @ [x])) b =
      slot_step (label x) (feature_verdict bcd b x) (slot_of (aggregate bcd fs) b)"
    by (simp add: aggregate_snoc feature_step_slot)
  then have "fst (snd (slot_of (aggregate bcd (fs @ [x])) b)) =
      fst (snd (slot_step (label x) (feature_verdict bcd b x) (slot_of (aggregate bcd fs) b)))"
    by (simp only:)
  moreover have "\<And>s. fst (snd (slot_of s b)) = unsupported_acc s b" by (simp add: slot_of_def)
  ultimately have "unsupported_acc (aggregate bcd (fs @ [x])) b =
      fst (snd (slot_step (label x) (feature_verdict bcd b x) (slot_of (aggregate bcd fs) b)))"
    by simp
  then show ?case using snoc
    by (cases "feature_verdict bcd b x")
       (simp_all add: slot_of_def unsupported_labels_def js_ge.simps split: if_splits)
qed

lemma normalizeVersion_no_digit:
  "list_all (\<lambda>c. \<not> is_digit c \<and> c \<noteq> CHR ''.'') s \<Longrightarrow> normalizeVersion (VStr s) = None"
  by (simp add: normalizeVersion_def Let_def filter_empty_conv list_all_iff)

text \<open>
  C10. When the chosen statement's added-version is a string without any digit or
  period (such as \<open>preview\<close>), normalization yields null and the feature counts as
  unsupported for that browser: its label is appended to the browser's unsupported
  list and the running minimum and limiting feature stay as they are, exactly as
  for the added-version \<open>false\<close>.
\<close>

theorem non_numeric_version_unsupported:
  assumes "list_all (\<lambda>c. \<not> is_digit c \<and> c \<noteq> CHR ''.'') s"
    and "pickSupportStatement (support b) = Some statement"
    and "version_added statement = VStr s"
  shows "normalizeVersion (version_added statement) = None
       \<and> normalizeVersion (version_added statement) = normalizeVersion (VBool False)
       \<and> unsupported_acc (browser_step feature support b st) b =
           Some ((case unsupported_acc st b of None \<Rightarrow> [] | Some l \<Rightarrow> l) @ [label feature])
       \<and> minimum (browser_step feature support b st) = minimum st
       \<and> limitingFeature (browser_step feature support b st) = limitingFeature st
       \<and> limitingVersion (browser_step feature support b st) = limitingVersion st
       \<and> browser_step feature support b st =
           browser_step feature
             (support(b := Some (Single (statement\<lparr>version_added := VBool False\<rparr>)))) b st"
proof -
  have n: "normalizeVersion (version_added statement) = None"
    using assms(1,3) by (simp add: normalizeVersion_no_digit)
  have f: "normalizeVersion (VBool False) = None" by (simp add: normalizeVersion_def)
  show ?thesis using assms(2) by (simp add: n f browser_step_def)
qed

lemma collect_appearance:
  "collectFeatures ex_host ''a{appearance:0}'' = [property_feature ''appearance'']"
  by (simp add: collectFeatures_def ex_parse_def ex_css_nested_def ex_rule_def ex_declaration_def
      string_eval feature_eval)

theorem non_numeric_version_unsupported_witness:
  "list_all (\<lambda>c. \<not> is_digit c \<and> c \<noteq> CHR ''.'') ''preview''
   \<and> pickSupportStatement (ex_appearance_support chrome) = Some (plain_statement (VStr ''preview''))
   \<and> version_added (plain_statement (VStr ''preview'')) = VStr ''preview''
   \<and> normalizeVersion (VStr ''preview'') = None
   \<and> unsupported_acc (browser_step (property_feature ''appearance'') ex_appearance_support chrome
        initial_state) chrome = Some [''appearance'']
   \<and> minimum (browser_step (property_feature ''appearance'') ex_appearance_support chrome
        initial_state) chrome = Num 0
   \<and> unsupported (analyzeCssSupport ex_host ex_bcd ''a{appearance:0}'') chrome
        = Some [''appearance'']
   \<and> minimumVersions (analyzeCssSupport ex_host ex_bcd ''a{appearance:0}'') chrome = None"
proof -
  have h: "list_all (\<lambda>c. \<not> is_digit c \<and> c \<noteq> CHR ''.'') ''preview''"
    "pickSupportStatement (ex_appearance_support chrome) = Some (plain_statement (VStr ''preview''))"
    "version_added (plain_statement (VStr ''preview'')) = VStr ''preview''"
    by (simp_all add: is_digit_def ex_appearance_support_def plain_statement_def)
  have t: "trim ''a{appearance:0}'' \<noteq> []" by (simp add: trim_examples)
  have l: "unsupported_labels ex_bcd chrome [property_feature ''appearance''] = [''appearance'']"
    by (simp add: unsupported_labels_def resolve_eval property_feature_def
        normalizeVersion_def is_digit_def)
  have a: "unsupported (analyzeCssSupport ex_host ex_bcd ''a{appearance:0}'') chrome
        = Some [''appearance'']"
    using t by (simp add: analyzeCssSupport_def Let_def collect_appearance aggregate_unsupported l)
  have m: "minimumVersions (analyzeCssSupport ex_host ex_bcd ''a{appearance:0}'') chrome = None"
    using t by (simp add: analyzeCssSupport_def Let_def collect_appearance aggregate_unsupported l
        formatVersion_def)
  have c: "normalizeVersion (version_added (plain_statement (VStr ''preview''))) = None
      \<and> unsupported_acc (browser_step (property_feature ''appearance'') ex_appearance_support
            chrome initial_state) chrome
          = Some ((case unsupported_acc initial_state chrome of None \<Rightarrow> [] | Some l \<Rightarrow> l)
                  @ [label (property_feature ''appearance'')])
      \<and> minimum (browser_step (property_feature ''appearance'') ex_appearance_support chrome
            initial_state) = minimum initial_state"
    using non_numeric_version_unsupported [where s = "''preview''"
        and support = ex_appearance_support and b = chrome
        and statement = "plain_statement (VStr ''preview'')"
        and feature = "property_feature ''appearance''" and st = initial_state, OF h]
    by blast
  show ?thesis
    using h a m c by (simp add: initial_state_def property_feature_def plain_statement_def)
qed

section \<open>Formatting the minimum version\<close>

text \<open>
  The decimal digits that the formatter prints read back as the number printed.
\<close>

lemma digit_char_cases:
  assumes "0 \<le> d" and "d < 10"
  shows "digit_val (digit_char d) = d \<and> is_digit (digit_char d)"
proof -
  from assms have "d = 0 \<or> d = 1 \<or> d = 2 \<or> d = 3 \<or> d = 4 \<or> d = 5 \<or> d = 6 \<or> d = 7
      \<or> d = 8 \<or> d = 9" by arith
  then show ?thesis
    by (elim disjE) (simp_all add: digit_val_def digit_char_def is_digit_def)
qed

lemma int_to_digits_roundtrip:
  "0 \<le> n \<Longrightarrow> digits_to_int (int_to_digits n) = n \<and> list_all is_digit (int_to_digits n)"
proof (induction n rule: int_to_digits.induct)
  case (1 n)
  show ?case
  proof (cases "n < 10")
    case True
    have e: "int_to_digits n = [digit_char n]"
      by (subst int_to_digits.simps) (simp only: True if_True)
    show ?thesis using digit_char_cases [OF 1(2) True] by (simp add: e digits_to_int_def)
  next
    case False
    have n: "0 \<le> n div 10" using 1(2) by simp
    from 1(1) [OF False n] have IH: "digits_to_int (int_to_digits (n div 10)) = n div 10"
      "list_all is_digit (int_to_digits (n div 10))" by blast+
    have d: "0 \<le> n mod 10" "n mod 10 < 10" by simp_all
    have e: "int_to_digits n = int_to_digits (n div 10) @ [digit_char (n mod 10)]"
      by (subst int_to_digits.simps) (simp only: False if_False)
    have "digits_to_int (int_to_digits n) = 10 * (n div 10) + n mod 10"
      using digit_char_cases [OF d] by (simp only: e digits_to_int_snoc IH)
    moreover have "list_all is_digit (int_to_digits n)"
      using digit_char_cases [OF d] IH(2) by (simp add: e)
    ultimately show ?thesis by simp
  qed
qed

text \<open>
  The running minimum is a double that is not negative: 0, or a version read from a
  string; when it is not whole it is at most \<open>2^52\<close>.
\<close>

lemma normalizeVersion_double:
  assumes "normalizeVersion v = Some (Num r)"
  shows "0 \<le> r \<and> (r \<noteq> of_int \<lfloor>r\<rfloor> \<longrightarrow> r \<le> 2 powi 52)"
proof (cases "v = VBool True")
  case True
  with assms show ?thesis by (simp add: normalizeVersion_def)
next
  case False
  with assms obtain s where "parseFloat s = Num r"
    by (auto simp: normalizeVersion_def Let_def split: version.splits bool.splits if_splits)
  from parseFloat_rounded [OF this] obtain x where x: "0 \<le> x" "r = round_double x" by blast
  show ?thesis using round_double_nonneg [OF x(1)] round_double_fraction [OF x(1)] x(2) by blast
qed

lemma supported_versions_double:
  assumes "p \<in> set (supported_versions bcd b fs)"
  shows "snd p \<noteq> of_int \<lfloor>snd p\<rfloor> \<longrightarrow> snd p \<le> 2 powi 52"
proof -
  from assms obtain f where "feature_verdict bcd b f = Since (Num (snd p))"
    by (auto simp: supported_versions_def List.map_filter_def split: verdict.splits jsnum.splits)
  then obtain v where "normalizeVersion v = Some (Num (snd p))"
    by (auto simp: feature_verdict_def split: option.splits)
  from normalizeVersion_double [OF this] show ?thesis by blast
qed

lemma minimum_double:
  "\<exists>q. minimum (aggregate bcd fs) b = Num q \<and> 0 \<le> q
       \<and> (q \<noteq> of_int \<lfloor>q\<rfloor> \<longrightarrow> q \<le> 2 powi 52)"
proof -
  let ?svs = "supported_versions bcd b fs"
  let ?q = "top_version 0 ?svs"
  have m: "minimum (aggregate bcd fs) b = Num ?q" using aggregate_limits [of bcd fs b] by simp
  have n: "0 \<le> ?q" by (rule top_version_ge)
  have "?q \<in> insert 0 (snd ` set ?svs)" unfolding top_version_def by (rule Max_in) simp_all
  then have "?q = 0 \<or> (\<exists>p\<in>set ?svs. ?q = snd p)" by auto
  then have "?q \<noteq> of_int \<lfloor>?q\<rfloor> \<longrightarrow> ?q \<le> 2 powi 52"
  proof
    assume "?q = 0"
    then show ?thesis by simp
  next
    assume "\<exists>p\<in>set ?svs. ?q = snd p"
    then obtain p where "p \<in> set ?svs" "?q = snd p" by blast
    then show ?thesis using supported_versions_double [of p bcd b fs] by simp
  qed
  with m n show ?thesis by blast
qed

lemma formatVersion_double:
  assumes "0 \<le> q" and "q \<noteq> of_int \<lfloor>q\<rfloor> \<longrightarrow> q \<le> 2 powi 52"
  shows "formatVersion (Num q) None =
     Some (if q = 0 then ''all''
           else if infinity \<le> q then ''Infinity''
           else if q = of_int \<lfloor>q\<rfloor> then string_of_whole \<lfloor>q\<rfloor>
           else int_to_digits (\<lfloor>q * 10 + 1 / 2\<rfloor> div 10) @ ''.''
                @ [digit_char (\<lfloor>q * 10 + 1 / 2\<rfloor> mod 10)])"
proof -
  have a: "\<bar>q\<bar> = q" and n: "\<not> q < 0" using assms(1) by simp_all
  have big: "(10::rat) ^ 21 \<le> infinity" by (simp add: infinity_def)
  have small: "(2::rat) powi 52 < 10 ^ 21" by simp
  consider "q = 0" | "q \<noteq> 0" "infinity \<le> q" | "q \<noteq> 0" "\<not> infinity \<le> q" "q = of_int \<lfloor>q\<rfloor>"
    | "q \<noteq> 0" "\<not> infinity \<le> q" "q \<noteq> of_int \<lfloor>q\<rfloor>" by blast
  then show ?thesis
  proof cases
    case 1
    then show ?thesis by (simp add: formatVersion_def)
  next
    case 2
    then have "10 ^ 21 \<le> q" using big by simp
    then show ?thesis
      using 2 n by (simp add: formatVersion_def isInteger_def toFixed1_def number_to_string_def a)
  next
    case 3
    have i: "isInteger (Num q)" using 3 by (simp add: isInteger_def a)
    show ?thesis
      using 3(1,2) n by (simp add: formatVersion_def i number_to_string_def a 3(3) [symmetric])
  next
    case 4
    then have "q \<le> 2 powi 52" using assms(2) by blast
    then have l: "\<not> 10 ^ 21 \<le> q" using small by linarith
    have i: "\<not> isInteger (Num q)" using 4 by (simp add: isInteger_def)
    show ?thesis
      using 4 n l by (simp add: formatVersion_def i toFixed1_def a)
  qed
qed

lemmas collect_eval = collectFeatures_def ex_parse_def ex_css_nested_def ex_rule_def
  ex_declaration_def

lemma collect_zoom: "collectFeatures ex_host ''a{zoom:1}'' = [property_feature ''zoom'']"
  by (simp add: collect_eval string_eval feature_eval)

lemma collect_width: "collectFeatures ex_host ''a{width:0}'' = [property_feature ''width'']"
  by (simp add: collect_eval string_eval feature_eval)

lemma verdicts_zoom:
  "feature_verdict ex_bcd chrome (property_feature ''zoom'') = Since (Num 120)"
  "feature_verdict ex_bcd firefox (property_feature ''zoom'') = NeverSupported"
  "feature_verdict ex_bcd safari (property_feature ''zoom'')
     = Since (Num (8669429282688205 / 562949953421312))"
  by (simp_all add: resolve_eval version_eval property_feature_def)

lemma verdicts_width:
  "feature_verdict ex_bcd b (property_feature ''width'') = Since (Num 0)"
  by (simp add: resolve_eval version_eval property_feature_def)

lemma label_property_feature: "label (property_feature p) = p"
  by (simp add: property_feature_def)

lemma aggregate_single:
  "slot_of (aggregate bcd [f]) b =
     slot_step (label f) (feature_verdict bcd b f) (Num 0, None, None, None)"
  by (simp add: aggregate_slot)

lemma slots_zoom:
  "slot_of (aggregate ex_bcd [property_feature ''zoom'']) chrome
     = (Num 120, None, Some ''zoom'', Some (Num 120))"
  "slot_of (aggregate ex_bcd [property_feature ''zoom'']) firefox
     = (Num 0, Some [''zoom''], None, None)"
  "slot_of (aggregate ex_bcd [property_feature ''zoom'']) safari
     = (Num (8669429282688205 / 562949953421312), None, Some ''zoom'',
        Some (Num (8669429282688205 / 562949953421312)))"
  by (simp_all add: aggregate_single verdicts_zoom label_property_feature)

lemma slot_of_fields:
  "slot_of st b = (m, u, f, v) \<Longrightarrow>
     minimum st b = m \<and> unsupported_acc st b = u \<and> limitingFeature st b = f
     \<and> limitingVersion st b = v"
  by (simp add: slot_of_def)

text \<open>
  The versions of the second knowledge base: 309 nines are beyond every finite
  double, and \<open>10^21\<close> is a double.
\<close>

lemma huge_versions:
  "normalizeVersion (VStr ex_huge_version) = Some (Num infinity)"
  "normalizeVersion (VStr ''1000000000000000000000'') = Some (Num 1000000000000000000000)"
  by code_simp+

lemma huge_formats:
  "formatVersion (Num infinity) None = Some ''Infinity''"
  "formatVersion (Num 1000000000000000000000) None = Some ''1e+21''"
  "isInteger (Num infinity) = False"
  "isInteger (Num 1000000000000000000000) = True"
  by code_simp+

lemma verdicts_huge:
  "feature_verdict ex_huge_bcd b (property_feature ''zoom'') = Since (Num infinity)"
  "feature_verdict ex_huge_bcd b (property_feature ''width'')
     = Since (Num 1000000000000000000000)"
  by (simp_all add: feature_verdict_def resolveFeatureCompat_def ex_huge_bcd_def
      property_feature_def all_browsers_def plain_statement_def huge_versions)

lemma slots_huge:
  "slot_of (aggregate ex_huge_bcd [property_feature ''zoom'']) b
     = (Num infinity, None, Some ''zoom'', Some (Num infinity))"
  "slot_of (aggregate ex_huge_bcd [property_feature ''width'']) b
     = (Num 1000000000000000000000, None, Some ''width'', Some (Num 1000000000000000000000))"
  using infinity_pos
  by (simp_all add: aggregate_single verdicts_huge label_property_feature)

text \<open>
  C5, as stated, fails above the range of browser versions: a running minimum that
  has overflowed to infinity is not whole and is reported as \<open>Infinity\<close>, without a
  decimal place, and the whole number \<open>10^21\<close> is reported in exponent notation,
  as \<open>1e+21\<close>.
\<close>

theorem reported_minimum_format_counterexample:
  "trim ''a{zoom:1}'' \<noteq> []
   \<and> unsupported (analyzeCssSupport ex_host ex_huge_bcd ''a{zoom:1}'') chrome = None
   \<and> minimum (aggregate ex_huge_bcd (collectFeatures ex_host ''a{zoom:1}'')) chrome = Num infinity
   \<and> isInteger (Num infinity) = False
   \<and> minimumVersions (analyzeCssSupport ex_host ex_huge_bcd ''a{zoom:1}'') chrome
       = Some ''Infinity''
   \<and> trim ''a{width:0}'' \<noteq> []
   \<and> unsupported (analyzeCssSupport ex_host ex_huge_bcd ''a{width:0}'') chrome = None
   \<and> minimum (aggregate ex_huge_bcd (collectFeatures ex_host ''a{width:0}'')) chrome
       = Num 1000000000000000000000
   \<and> isInteger (Num 1000000000000000000000) = True
   \<and> minimumVersions (analyzeCssSupport ex_host ex_huge_bcd ''a{width:0}'') chrome
       = Some ''1e+21''"
proof -
  have t: "trim ''a{zoom:1}'' \<noteq> []" "trim ''a{width:0}'' \<noteq> []" by (simp_all add: trim_examples)
  note z = slots_huge(1) [of chrome, THEN slot_of_fields]
  note w = slots_huge(2) [of chrome, THEN slot_of_fields]
  have 1: "unsupported (analyzeCssSupport ex_host ex_huge_bcd ''a{zoom:1}'') chrome = None"
    using t by (simp add: analyzeCssSupport_def Let_def collect_zoom z)
  have 2: "minimumVersions (analyzeCssSupport ex_host ex_huge_bcd ''a{zoom:1}'') chrome
       = Some ''Infinity''"
    using t by (simp add: analyzeCssSupport_def Let_def collect_zoom z huge_formats)
  have 3: "unsupported (analyzeCssSupport ex_host ex_huge_bcd ''a{width:0}'') chrome = None"
    using t by (simp add: analyzeCssSupport_def Let_def collect_width w)
  have 4: "minimumVersions (analyzeCssSupport ex_host ex_huge_bcd ''a{width:0}'') chrome
       = Some ''1e+21''"
    using t by (simp add: analyzeCssSupport_def Let_def collect_width w huge_formats)
  show ?thesis
    using t 1 2 3 4 z w by (simp add: collect_zoom collect_width huge_formats)
qed

text \<open>
  C5, amended. For every browser of a non-blank input: if the browser's unsupported
  list is not empty, the reported minimum version is absent, whatever the running
  minimum; otherwise the running minimum is a number \<open>q \<ge> 0\<close>, reported as \<open>all\<close> when
  it is 0, as \<open>Infinity\<close> when it has overflowed, as \<open>String(q)\<close> when it is whole
  (the decimal digits of \<open>q\<close> below \<open>2^53\<close>, the shortest digits that read back as \<open>q\<close>
  above, in exponent notation from \<open>10^21\<close> on), and else with one digit after the
  period (the tenth nearest to the double \<open>q\<close>, the upper one on a tie).
\<close>

theorem reported_minimum_format:
  assumes "trim css \<noteq> []"
  shows "((\<exists>l. unsupported (analyzeCssSupport host bcd css) b = Some l \<and> l \<noteq> []) \<longrightarrow>
            minimumVersions (analyzeCssSupport host bcd css) b = None)
       \<and> (\<not> (\<exists>l. unsupported (analyzeCssSupport host bcd css) b = Some l \<and> l \<noteq> []) \<longrightarrow>
            (\<exists>q. minimum (aggregate bcd (collectFeatures host css)) b = Num q \<and> 0 \<le> q
               \<and> minimumVersions (analyzeCssSupport host bcd css) b =
                   Some (if q = 0 then ''all''
                         else if infinity \<le> q then ''Infinity''
                         else if q = of_int \<lfloor>q\<rfloor> then string_of_whole \<lfloor>q\<rfloor>
                         else int_to_digits (\<lfloor>q * 10 + 1 / 2\<rfloor> div 10) @ ''.''
                              @ [digit_char (\<lfloor>q * 10 + 1 / 2\<rfloor> mod 10)])
               \<and> (q < 2 ^ 53 \<longrightarrow> string_of_whole \<lfloor>q\<rfloor> = int_to_digits \<lfloor>q\<rfloor>)))"
proof -
  let ?st = "aggregate bcd (collectFeatures host css)"
  let ?r = "analyzeCssSupport host bcd css"
  have u: "unsupported ?r b = unsupported_acc ?st b"
    using assms by (simp add: analyzeCssSupport_def Let_def)
  have m: "minimumVersions ?r b = formatVersion (minimum ?st b) (unsupported_acc ?st b)"
    using assms by (simp add: analyzeCssSupport_def Let_def)
  have some: "minimumVersions ?r b = None" if "\<exists>l. unsupported ?r b = Some l \<and> l \<noteq> []"
    using that by (auto simp: u m formatVersion_def)
  have none: "\<exists>q. minimum ?st b = Num q \<and> 0 \<le> q
               \<and> minimumVersions ?r b =
                   Some (if q = 0 then ''all''
                         else if infinity \<le> q then ''Infinity''
                         else if q = of_int \<lfloor>q\<rfloor> then string_of_whole \<lfloor>q\<rfloor>
                         else int_to_digits (\<lfloor>q * 10 + 1 / 2\<rfloor> div 10) @ ''.''
                              @ [digit_char (\<lfloor>q * 10 + 1 / 2\<rfloor> mod 10)])
               \<and> (q < 2 ^ 53 \<longrightarrow> string_of_whole \<lfloor>q\<rfloor> = int_to_digits \<lfloor>q\<rfloor>)"
    if n: "\<not> (\<exists>l. unsupported ?r b = Some l \<and> l \<noteq> [])"
  proof -
    have "unsupported_acc ?st b = None \<or> (\<exists>l. unsupported_acc ?st b = Some l \<and> l \<noteq> [])"
      by (simp add: aggregate_unsupported)
    with n have e: "unsupported_acc ?st b = None" unfolding u by blast
    from minimum_double obtain q where q: "minimum ?st b = Num q" "0 \<le> q"
      "q \<noteq> of_int \<lfloor>q\<rfloor> \<longrightarrow> q \<le> 2 powi 52" by blast
    have "minimumVersions ?r b = formatVersion (Num q) None" by (simp only: m e q)
    then have f: "minimumVersions ?r b =
        Some (if q = 0 then ''all''
              else if infinity \<le> q then ''Infinity''
              else if q = of_int \<lfloor>q\<rfloor> then string_of_whole \<lfloor>q\<rfloor>
              else int_to_digits (\<lfloor>q * 10 + 1 / 2\<rfloor> div 10) @ ''.''
                   @ [digit_char (\<lfloor>q * 10 + 1 / 2\<rfloor> mod 10)])"
      by (simp only: formatVersion_double [OF q(2,3)])
    have w: "string_of_whole \<lfloor>q\<rfloor> = int_to_digits \<lfloor>q\<rfloor>" if "q < 2 ^ 53"
    proof -
      from that have "q < of_int (2 ^ 53)" by simp
      then have "\<lfloor>q\<rfloor> < 2 ^ 53" by (simp only: floor_less_iff)
      then show ?thesis by (simp add: string_of_whole_def)
    qed
    from q(1,2) f w show ?thesis by blast
  qed
  show ?thesis using some none by blast
qed

lemma format_examples:
  "(if (120::rat) = 0 then ''all''
    else if infinity \<le> 120 then ''Infinity''
    else if (120::rat) = of_int \<lfloor>120::rat\<rfloor> then string_of_whole \<lfloor>120::rat\<rfloor>
    else int_to_digits (\<lfloor>(120::rat) * 10 + 1 / 2\<rfloor> div 10) @ ''.''
         @ [digit_char (\<lfloor>(120::rat) * 10 + 1 / 2\<rfloor> mod 10)]) = ''120''"
  "(if (8669429282688205 / 562949953421312::rat) = 0 then ''all''
    else if infinity \<le> 8669429282688205 / 562949953421312 then ''Infinity''
    else if (8669429282688205 / 562949953421312::rat)
            = of_int \<lfloor>8669429282688205 / 562949953421312::rat\<rfloor>
      then string_of_whole \<lfloor>8669429282688205 / 562949953421312::rat\<rfloor>
    else int_to_digits (\<lfloor>(8669429282688205 / 562949953421312::rat) * 10 + 1 / 2\<rfloor> div 10) @ ''.''
         @ [digit_char (\<lfloor>(8669429282688205 / 562949953421312::rat) * 10 + 1 / 2\<rfloor> mod 10)])
   = ''15.4''"
  by code_simp+

theorem reported_minimum_format_witness:
  "trim ''a{zoom:1}'' \<noteq> []
   \<and> (\<exists>l. unsupported (analyzeCssSupport ex_host ex_bcd ''a{zoom:1}'') firefox = Some l \<and> l \<noteq> [])
   \<and> minimumVersions (analyzeCssSupport ex_host ex_bcd ''a{zoom:1}'') firefox = None
   \<and> \<not> (\<exists>l. unsupported (analyzeCssSupport ex_host ex_bcd ''a{zoom:1}'') chrome = Some l \<and> l \<noteq> [])
   \<and> minimumVersions (analyzeCssSupport ex_host ex_bcd ''a{zoom:1}'') chrome = Some ''120''
   \<and> \<not> (\<exists>l. unsupported (analyzeCssSupport ex_host ex_bcd ''a{zoom:1}'') safari = Some l \<and> l \<noteq> [])
   \<and> minimumVersions (analyzeCssSupport ex_host ex_bcd ''a{zoom:1}'') safari = Some ''15.4''"
proof -
  let ?r = "analyzeCssSupport ex_host ex_bcd ''a{zoom:1}''"
  have t: "trim ''a{zoom:1}'' \<noteq> []" by (simp add: trim_examples)
  have u: "unsupported ?r = unsupported_acc (aggregate ex_bcd [property_feature ''zoom''])"
    using t by (simp add: analyzeCssSupport_def Let_def collect_zoom)
  note s = slots_zoom [THEN slot_of_fields]
  have hf: "\<exists>l. unsupported ?r firefox = Some l \<and> l \<noteq> []" by (simp add: u s)
  have hc: "\<not> (\<exists>l. unsupported ?r chrome = Some l \<and> l \<noteq> [])" by (simp add: u s)
  have hs: "\<not> (\<exists>l. unsupported ?r safari = Some l \<and> l \<noteq> [])" by (simp add: u s)
  note w = reported_minimum_format [OF t, of ex_host ex_bcd]
  have f: "minimumVersions ?r firefox = None" using w [of firefox] hf by blast
  have c: "minimumVersions ?r chrome = Some ''120''"
  proof -
    from w [of chrome] hc obtain q
      where q: "minimum (aggregate ex_bcd (collectFeatures ex_host ''a{zoom:1}'')) chrome = Num q"
        and mv: "minimumVersions ?r chrome =
          Some (if q = 0 then ''all''
                else if infinity \<le> q then ''Infinity''
                else if q = of_int \<lfloor>q\<rfloor> then string_of_whole \<lfloor>q\<rfloor>
                else int_to_digits (\<lfloor>q * 10 + 1 / 2\<rfloor> div 10) @ ''.''
                     @ [digit_char (\<lfloor>q * 10 + 1 / 2\<rfloor> mod 10)])"
      by blast
    from q have "Num q = Num 120" by (simp only: collect_zoom s)
    then have "q = 120" by (simp only: jsnum.inject)
    then show ?thesis using mv by (simp only: format_examples)
  qed
  have sa: "minimumVersions ?r safari = Some ''15.4''"
  proof -
    from w [of safari] hs obtain q
      where q: "minimum (aggregate ex_bcd (collectFeatures ex_host ''a{zoom:1}'')) safari = Num q"
        and mv: "minimumVersions ?r safari =
          Some (if q = 0 then ''all''
                else if infinity \<le> q then ''Infinity''
                else if q = of_int \<lfloor>q\<rfloor> then string_of_whole \<lfloor>q\<rfloor>
                else int_to_digits (\<lfloor>q * 10 + 1 / 2\<rfloor> div 10) @ ''.''
                     @ [digit_char (\<lfloor>q * 10 + 1 / 2\<rfloor> mod 10)])"
      by blast
    from q have "Num q = Num (8669429282688205 / 562949953421312)" by (simp only: collect_zoom s)
    then have "q = 8669429282688205 / 562949953421312" by (simp only: jsnum.inject)
    then show ?thesis using mv by (simp only: format_examples)
  qed
  show ?thesis using t hf f hc c hs sa by blast
qed

section \<open>A universally supported feature\<close>

lemma set_add_all: "set (add_all fs us) \<subseteq> set fs \<union> set us"
proof (induction us arbitrary: fs)
  case Nil
  then show ?case by simp
next
  case (Cons u us)
  have "set (addFeature fs u) \<subseteq> set fs \<union> {u}" by (auto simp: addFeature_def)
  with Cons [of "addFeature fs u"] show ?case by auto
qed

lemma value_usages_labelled: "\<forall>f\<in>set (value_usages host pr n). label f \<noteq> []"
  by (induction host pr n rule: value_usages.induct)
     (simp_all add: identifier_feature_def function_feature_def)

lemma declaration_usages_labelled: "\<forall>f\<in>set (declaration_usages host n). label f \<noteq> []"
  by (induction host n rule: declaration_usages.induct)
     (auto simp: Let_def property_feature_def value_usages_labelled)

lemma nesting_usages_labelled: "\<forall>f\<in>set (nesting_usages n). label f \<noteq> []"
  by (induction n rule: nesting_usages.induct) (simp_all add: nesting_feature_def)

lemma collected_labelled: "f \<in> set (collectFeatures host css) \<Longrightarrow> label f \<noteq> []"
proof -
  assume "f \<in> set (collectFeatures host css)"
  then have "f \<in> set (usages host css)"
    using set_add_all [of "[]" "usages host css"] by (auto simp: collectFeatures_usages)
  then show ?thesis
    using declaration_usages_labelled nesting_usages_labelled
    by (auto simp: usages_def split: option.splits)
qed

lemma number_to_string_zero: "number_to_string (Num 0) = ''0''"
  by code_simp

lemma ex_width_resolves:
  "resolveFeatureCompat ex_bcd (property_feature ''width'')
     = Some (CompatData (Some (all_browsers (VBool True))) [])"
  by (simp add: resolveFeatureCompat_def ex_bcd_def property_feature_def)

lemma ex_width_statement:
  "pickSupportStatement (all_browsers (VBool True) b) = Some (plain_statement (VBool True))"
  "version_added (plain_statement (VBool True)) = VBool True"
  by (simp_all add: all_browsers_def plain_statement_def)

text \<open>
  C1, as stated, fails in its second half: for the single feature \<open>width\<close>, supported
  since ever by every browser, the minimum version is \<open>all\<close> but the reason names
  \<open>width\<close> as limiting since version 0, because a version of 0 passes the test
  \<open>version >= minimum\<close> against the initial minimum 0 and is recorded.
\<close>

theorem universal_feature_reason_counterexample:
  "trim ''a{width:0}'' \<noteq> []
   \<and> collectFeatures ex_host ''a{width:0}'' = [property_feature ''width'']
   \<and> resolveFeatureCompat ex_bcd (property_feature ''width'')
       = Some (CompatData (Some (all_browsers (VBool True))) [])
   \<and> pickSupportStatement (all_browsers (VBool True) chrome) = Some (plain_statement (VBool True))
   \<and> pickSupportStatement (all_browsers (VBool True) firefox) = Some (plain_statement (VBool True))
   \<and> pickSupportStatement (all_browsers (VBool True) safari) = Some (plain_statement (VBool True))
   \<and> version_added (plain_statement (VBool True)) = VBool True
   \<and> minimumVersions (analyzeCssSupport ex_host ex_bcd ''a{width:0}'') chrome = Some ''all''
   \<and> reasons (analyzeCssSupport ex_host ex_bcd ''a{width:0}'') chrome
       = msg_limits @ ''width'' @ msg_since @ ''0)''
   \<and> reasons (analyzeCssSupport ex_host ex_bcd ''a{width:0}'') chrome \<noteq> msg_none"
proof -
  have t: "trim ''a{width:0}'' \<noteq> []" by (simp add: trim_examples)
  have "slot_of (aggregate ex_bcd [property_feature ''width'']) chrome
      = (Num 0, None, Some ''width'', Some (Num 0))"
    by (simp add: aggregate_single verdicts_width label_property_feature)
  note s = this [THEN slot_of_fields]
  have i: "isInteger (Num 0)" using infinity_pos by (simp add: isInteger_def)
  have m: "minimumVersions (analyzeCssSupport ex_host ex_bcd ''a{width:0}'') chrome = Some ''all''"
    using t by (simp add: analyzeCssSupport_def Let_def collect_width s formatVersion_def)
  have r: "reasons (analyzeCssSupport ex_host ex_bcd ''a{width:0}'') chrome
       = msg_limits @ ''width'' @ msg_since @ ''0)''"
    using t by (simp add: analyzeCssSupport_def Let_def collect_width s buildReason_def i
        number_to_string_zero)
  have d: "msg_limits @ ''width'' @ msg_since @ ''0)'' \<noteq> msg_none"
    by (simp add: msg_limits_def msg_none_def)
  show ?thesis
    using t m r d by (simp add: collect_width ex_width_resolves ex_width_statement)
qed

text \<open>
  C1, amended. For a non-blank input whose only extracted feature resolves, for every
  browser, to a statement with added-version \<open>true\<close>: every browser's minimum
  version is \<open>all\<close>, nothing is unsupported, and every browser's reason names that
  feature as the limiting one, since version 0.
\<close>

theorem universal_feature_result:
  assumes "trim css \<noteq> []"
    and "collectFeatures host css = [f]"
    and "resolveFeatureCompat bcd f = Some c"
    and "compat c = Some support"
    and "\<forall>b. \<exists>statement. pickSupportStatement (support b) = Some statement
            \<and> version_added statement = VBool True"
  shows "minimumVersions (analyzeCssSupport host bcd css) b = Some ''all''
       \<and> unsupported (analyzeCssSupport host bcd css) b = None
       \<and> reasons (analyzeCssSupport host bcd css) b =
           msg_limits @ label f @ msg_since @ ''0)''"
proof -
  from assms(5) obtain statement
    where p: "pickSupportStatement (support b) = Some statement"
      and v: "version_added statement = VBool True" by blast
  have n: "normalizeVersion (VBool True) = Some (Num 0)" by (simp add: normalizeVersion_def)
  have verdict: "feature_verdict bcd b f = Since (Num 0)"
    by (simp add: feature_verdict_def assms(3,4) p v n)
  have "slot_of (aggregate bcd [f]) b = (Num 0, None, Some (label f), Some (Num 0))"
    by (simp add: aggregate_single verdict)
  note s = this [THEN slot_of_fields]
  have l: "label f \<noteq> []" using collected_labelled [of f host css] assms(2) by simp
  have i: "isInteger (Num 0)" using infinity_pos by (simp add: isInteger_def)
  show ?thesis
    using assms(1) l
    by (simp add: analyzeCssSupport_def Let_def assms(2) s formatVersion_def buildReason_def
        i number_to_string_zero)
qed

theorem universal_feature_result_witness:
  "trim ''a{width:0}'' \<noteq> []
   \<and> collectFeatures ex_host ''a{width:0}'' = [property_feature ''width'']
   \<and> resolveFeatureCompat ex_bcd (property_feature ''width'')
       = Some (CompatData (Some (all_browsers (VBool True))) [])
   \<and> (\<forall>b. \<exists>statement. pickSupportStatement (all_browsers (VBool True) b) = Some statement
            \<and> version_added statement = VBool True)
   \<and> minimumVersions (analyzeCssSupport ex_host ex_bcd ''a{width:0}'') firefox = Some ''all''
   \<and> unsupported (analyzeCssSupport ex_host ex_bcd ''a{width:0}'') firefox = None
   \<and> reasons (analyzeCssSupport ex_host ex_bcd ''a{width:0}'') firefox
       = msg_limits @ ''width'' @ msg_since @ ''0)''"
proof -
  have t: "trim ''a{width:0}'' \<noteq> []" by (simp add: trim_examples)
  have h: "\<forall>b. \<exists>statement. pickSupportStatement (all_browsers (VBool True) b) = Some statement
            \<and> version_added statement = VBool True"
    using ex_width_statement by blast
  have c: "compat (CompatData (Some (all_browsers (VBool True))) []) = Some (all_browsers (VBool True))"
    by simp
  show ?thesis
    using t h universal_feature_result [OF t collect_width ex_width_resolves c h, of firefox]
    by (simp add: collect_width ex_width_resolves label_property_feature)
qed


end
